theory Spec2Isabelle
  imports Complex_Main
begin

section \<open>The hub, its devices and what the program can observe\<close>

text \<open>
  The program \<^verbatim>\<open>FLL2025Missions.py\<close> drives a Pybricks hub: a drive base on two motors,
  two attachment motors, the IMU, the buttons, the speaker and the light. Every call into
  that library is an \<^emph>\<open>event\<close>; a run of the program is the list of its events, in
  program order. Python's numbers are modelled as mathematical numbers: \<open>int\<close> where the
  source only ever passes integers (motor speeds and angles, milliseconds, frequencies),
  \<open>real\<close> where a float can occur (headings, centimetres). Rounding of floats is not
  modelled.
\<close>

datatype button = LEFT | RIGHT | CENTER | BLUETOOTH

datatype color = RED | ORANGE | YELLOW | GREEN | BLUE | BLACK | WHITE

datatype motor = left_motor | right_motor | motor_c | motor_d

datatype exn = RuntimeError string | OSError string | IndexError string

text \<open>\<open>str(e)\<close>, as \<open>print("Error:", e)\<close> shows an exception.\<close>

fun str :: "exn \<Rightarrow> string" where
  "str (RuntimeError m) = m"
| "str (OSError m) = m"
| "str (IndexError m) = m"

text \<open>
  The calls of the library, with their arguments. \<open>buttons_pressed\<close> and \<open>imu_heading\<close>
  are the two reads and carry the value that was read; \<open>raised\<close> marks that the call logged
  just before it raised. \<open>robot_turn\<close> is \<open>DriveBase.turn\<close>: it belongs to the drive
  base's interface, and no function of \<^verbatim>\<open>FLL2025Missions.py\<close> calls it.
\<close>

datatype event =
    robot_stop
  | robot_settings real real
  | robot_straight real
  | robot_turn real
  | motor_stop motor
  | motor_run motor int
  | motor_run_angle motor int int
  | speaker_beep int int
  | light_on color
  | imu_reset_heading real
  | wait int
  | print string
  | buttons_pressed "button set"
  | imu_heading real
  | raised exn

text \<open>
  The state the claims speak about: the events so far, and the two settings that
  \<open>robot.settings(straight_speed=..., straight_acceleration=...)\<close> stores in the drive
  base.
\<close>

record world =
  trace :: "event list"
  straight_speed :: real
  straight_acceleration :: real

text \<open>
  The environment answers by position in the run: what \<open>hub.buttons.pressed()\<close> and
  \<open>hub.imu.heading()\<close> return when they are the \<open>n\<close>-th event, and whether a call to
  the drive base or to a motor raises when it is the \<open>n\<close>-th event. Any physical
  behaviour of robot and operator gives one such environment, so a statement about all
  environments covers them all. Prints, beeps, the light, \<open>wait\<close> and the two reads do
  not raise.
\<close>

record env =
  pressed :: "nat \<Rightarrow> button set"
  heading :: "nat \<Rightarrow> real"
  fault :: "nat \<Rightarrow> exn option"

datatype outcome = Done | Raised exn

text \<open>
  A procedure returns normally (\<open>Done\<close>) or raises, and leaves a world; \<open>None\<close> is a
  call that never returns.
\<close>

type_synonym proc = "world \<Rightarrow> (outcome \<times> world) option"

definition emit :: "event \<Rightarrow> world \<Rightarrow> world" where
  "emit e w = w\<lparr>trace := trace w @ [e]\<rparr>"

fun effect :: "event \<Rightarrow> world \<Rightarrow> world" where
  "effect (robot_settings v a) w = w\<lparr>straight_speed := v, straight_acceleration := a\<rparr>"
| "effect e w = w"

text \<open>A call that cannot raise: print, beep, light, wait, reset of the heading.\<close>

definition call :: "event \<Rightarrow> proc" where
  "call e w = Some (Done, emit e w)"

text \<open>A call to the drive base or to a motor: it takes effect, or it raises.\<close>

definition actuate :: "env \<Rightarrow> event \<Rightarrow> proc" where
  "actuate env e w =
     (case fault env (length (trace w)) of
        None \<Rightarrow> Some (Done, effect e (emit e w))
      | Some x \<Rightarrow> Some (Raised x, emit (raised x) (emit e w)))"

definition raise :: "exn \<Rightarrow> proc" where
  "raise x w = Some (Raised x, w)"

definition hub_buttons_pressed :: "env \<Rightarrow> world \<Rightarrow> button set \<times> world" where
  "hub_buttons_pressed env w =
     (pressed env (length (trace w)), emit (buttons_pressed (pressed env (length (trace w)))) w)"

definition hub_imu_heading :: "env \<Rightarrow> world \<Rightarrow> real \<times> world" where
  "hub_imu_heading env w =
     (heading env (length (trace w)), emit (imu_heading (heading env (length (trace w)))) w)"

text \<open>
  Statements one after the other: the first that raises ends the block, and the
  statements after it are not run.
\<close>

fun block :: "proc list \<Rightarrow> proc" where
  "block [] w = Some (Done, w)"
| "block (p # ps) w =
     (case p w of
        None \<Rightarrow> None
      | Some (Raised x, w1) \<Rightarrow> Some (Raised x, w1)
      | Some (Done, w1) \<Rightarrow> block ps w1)"

text \<open>\<open>try: body  except Exception as e: handler(e)\<close>.\<close>

definition try_except :: "proc \<Rightarrow> (exn \<Rightarrow> proc) \<Rightarrow> proc" where
  "try_except body handler w =
     (case body w of
        None \<Rightarrow> None
      | Some (Done, w1) \<Rightarrow> Some (Done, w1)
      | Some (Raised x, w1) \<Rightarrow> handler x w1)"

text \<open>\<open>xs[i]\<close> of Python: a negative index counts from the end, out of range raises.\<close>

definition py_index :: "'a list \<Rightarrow> int \<Rightarrow> 'a option" where
  "py_index xs i =
     (if 0 \<le> i \<and> i < int (length xs) then Some (xs ! nat i)
      else if - int (length xs) \<le> i \<and> i < 0 then Some (xs ! nat (i + int (length xs)))
      else None)"

section \<open>Shared helpers\<close>

text \<open>
  The source also defines \<open>beep_mission\<close>, \<open>beep_selection\<close> and \<open>wait_release_all\<close>;
  nothing calls them, and they are left out.
\<close>

definition beep_ok :: proc where
  "beep_ok = call (speaker_beep 900 80)"

definition emergency_stop_check :: "env \<Rightarrow> proc" where
  "emergency_stop_check env w =
     (case hub_buttons_pressed env w of
        (bs, w1) \<Rightarrow>
          if CENTER \<in> bs then
            block [actuate env robot_stop,
                   actuate env (motor_stop left_motor),
                   actuate env (motor_stop right_motor),
                   actuate env (motor_stop motor_c),
                   actuate env (motor_stop motor_d),
                   call (speaker_beep 200 300),
                   raise (RuntimeError ''Emergency stop'')] w1
          else Some (Done, w1))"

definition setup_drive :: "env \<Rightarrow> proc" where
  "setup_drive env =
     block [actuate env robot_stop, actuate env (robot_settings 300 300), beep_ok]"

definition drive_cm :: "env \<Rightarrow> real \<Rightarrow> real \<Rightarrow> real \<Rightarrow> proc" where
  "drive_cm env distance_cm velocity_cm_s acceleration_cm_s2 =
     block [actuate env (robot_settings (velocity_cm_s * 10) (acceleration_cm_s2 * 10)),
            actuate env (robot_straight (distance_cm * 10)),
            actuate env robot_stop]"

text \<open>\<open>m.run_angle(speed, degrees, then=Stop.HOLD, wait=True)\<close>; \<open>accel\<close> is not used.\<close>

definition run_motor_for_degrees :: "env \<Rightarrow> motor \<Rightarrow> int \<Rightarrow> int \<Rightarrow> proc" where
  "run_motor_for_degrees env m degrees speed = actuate env (motor_run_angle m speed degrees)"

section \<open>The gyro turn\<close>

text \<open>Lines 89 and 90: \<open>if heading > 180: heading -= 360\<close>.\<close>

definition normalize_heading :: "real \<Rightarrow> real" where
  "normalize_heading h = (if h > 180 then h - 360 else h)"

text \<open>
  Lines 95 to 102, the end of one pass of the loop: the two motors run against each other,
  to the left for a positive target and to the right otherwise, then \<open>wait(10)\<close>.
\<close>

definition turn_motors :: "env \<Rightarrow> real \<Rightarrow> int \<Rightarrow> int \<Rightarrow> proc" where
  "turn_motors env target_deg speed turn_speed =
     (if target_deg > 0
      then block [actuate env (motor_run left_motor (- speed)),
                  actuate env (motor_run right_motor (turn_speed * speed)),
                  call (wait 10)]
      else block [actuate env (motor_run left_motor (turn_speed * speed)),
                  actuate env (motor_run right_motor (- speed)),
                  call (wait 10)])"

text \<open>
  The \<open>while True\<close> loop of \<open>gyro_turn\<close>. One pass: the emergency check, one heading
  sample, the test \<open>abs(heading) >= abs(target_deg)\<close> that leaves the loop, the two
  motor commands and the wait.
\<close>

partial_function (option) gyro_turn_loop :: "env \<Rightarrow> real \<Rightarrow> int \<Rightarrow> int \<Rightarrow> world \<Rightarrow> (outcome \<times> world) option" where
  "gyro_turn_loop env target_deg speed turn_speed w =
     (case emergency_stop_check env w of
        None \<Rightarrow> None
      | Some (Raised x, w1) \<Rightarrow> Some (Raised x, w1)
      | Some (Done, w1) \<Rightarrow>
          (case hub_imu_heading env w1 of
             (h, w2) \<Rightarrow>
               if \<bar>normalize_heading h\<bar> \<ge> \<bar>target_deg\<bar> then Some (Done, w2)
               else
                 (case turn_motors env target_deg speed turn_speed w2 of
                    None \<Rightarrow> None
                  | Some (Raised x, w3) \<Rightarrow> Some (Raised x, w3)
                  | Some (Done, w3) \<Rightarrow> gyro_turn_loop env target_deg speed turn_speed w3)))"

text \<open>
  \<open>speed = 100 if slow_turn else 400\<close>, \<open>turn_speed = 1 if axis_turn else 3\<close>; the
  source also computes \<open>power\<close> and never uses it.
\<close>

definition gyro_turn :: "env \<Rightarrow> real \<Rightarrow> bool \<Rightarrow> bool \<Rightarrow> proc" where
  "gyro_turn env target_deg slow_turn axis_turn =
     block [call (imu_reset_heading 0),
            call (wait 150),
            gyro_turn_loop env target_deg (if slow_turn then 100 else 400) (if axis_turn then 1 else 3),
            actuate env (motor_stop left_motor),
            actuate env (motor_stop right_motor),
            call (wait 100)]"

section \<open>The six missions\<close>

definition mission_0 :: "env \<Rightarrow> proc" where
  "mission_0 env =
     block [setup_drive env,
            call (print ''Mission 0''),
            drive_cm env 15 30 50,
            gyro_turn env 10 True True,
            call (wait 500),
            drive_cm env 55 100 50,
            gyro_turn env (- 55) True True,
            drive_cm env 10 30 30,
            run_motor_for_degrees env motor_d (- 1000) 1000,
            run_motor_for_degrees env motor_c 200 1000,
            call (print ''Turn completed''),
            drive_cm env (- 4) 30 50,
            call (print ''drive complete''),
            gyro_turn env 40 False True,
            drive_cm env (- 60) 30 50,
            gyro_turn env 45 False True,
            drive_cm env (- 30) 30 50]"

definition mission_1 :: "env \<Rightarrow> proc" where
  "mission_1 env =
     block [setup_drive env,
            call (print ''Mission 1''),
            call (imu_reset_heading 0),
            call (wait 200),
            drive_cm env 14 30 50,
            gyro_turn env 45 True True,
            run_motor_for_degrees env motor_c 150 720,
            drive_cm env 33 30 50,
            run_motor_for_degrees env motor_c (- 120) 100,
            run_motor_for_degrees env motor_d (- 720) 500,
            run_motor_for_degrees env motor_c 180 1440,
            run_motor_for_degrees env motor_d 720 360,
            drive_cm env (- 35) 30 30,
            call (wait 200),
            drive_cm env 10 30 50,
            gyro_turn env (- 30) False True,
            drive_cm env (- 15) 300 50,
            run_motor_for_degrees env motor_c (- 120) 1000,
            gyro_turn env 60 False True,
            drive_cm env (- 40) 300 50]"

definition mission_2 :: "env \<Rightarrow> proc" where
  "mission_2 env =
     block ([setup_drive env,
             call (print ''Mission 2''),
             call (imu_reset_heading 0),
             call (wait 200),
             drive_cm env 37 30 50]
            @ concat (replicate 3 [run_motor_for_degrees env motor_c (- 180) 750,
                                   run_motor_for_degrees env motor_c 180 750])
            @ [drive_cm env (- 31 / 2) 30 50,
               call (imu_reset_heading 0),
               call (wait 200),
               gyro_turn env 90 True True,
               drive_cm env 195 500 500])"

definition mission_3 :: "env \<Rightarrow> proc" where
  "mission_3 env =
     block [setup_drive env,
            call (print ''Mission 3''),
            drive_cm env 41 30 5,
            drive_cm env (- 15) 17 15,
            drive_cm env 31 15 10,
            drive_cm env (- 50) 30 10]"

definition mission_4 :: "env \<Rightarrow> proc" where
  "mission_4 env =
     block [setup_drive env,
            call (print ''Mission 4''),
            drive_cm env 69 20 500,
            gyro_turn env 43 True True,
            drive_cm env 23 30 200,
            run_motor_for_degrees env motor_d 180 1000,
            run_motor_for_degrees env motor_c 150 300,
            call (wait 1000),
            run_motor_for_degrees env motor_c 200 1000,
            run_motor_for_degrees env motor_c (- 300) 500,
            drive_cm env (- 22) 17 500,
            gyro_turn env 140 False True,
            drive_cm env 61 30 500]"

definition mission_5 :: "env \<Rightarrow> proc" where
  "mission_5 env =
     block [call (print ''Mission 5#''),
            setup_drive env,
            call (imu_reset_heading 0),
            call (wait 200),
            drive_cm env 73 30 100,
            gyro_turn env (- 90) True True,
            drive_cm env 23 30 5,
            gyro_turn env (- 30) True True,
            drive_cm env 4 30 5,
            run_motor_for_degrees env motor_d (- 600) 1000,
            drive_cm env 10 30 5,
            run_motor_for_degrees env motor_d 500 300,
            drive_cm env (- 35) 30 5,
            gyro_turn env 31 True False,
            run_motor_for_degrees env motor_d (- 500) 300,
            drive_cm env 10 30 5,
            run_motor_for_degrees env motor_d 500 300]"

section \<open>The selector and the launcher\<close>

definition MISSION_COLORS :: "color list" where
  "MISSION_COLORS = [RED, ORANGE, YELLOW, GREEN, BLUE, BLACK]"

definition POLL_MS :: int where
  "POLL_MS = 50"

definition set_mission_light :: "int \<Rightarrow> proc" where
  "set_mission_light index =
     (case py_index MISSION_COLORS index of
        None \<Rightarrow> raise (IndexError ''list index out of range'')
      | Some c \<Rightarrow> call (light_on c))"

definition MISSIONS :: "env \<Rightarrow> (string \<times> proc) list" where
  "MISSIONS env =
     [(''Mission 0'', mission_0 env),
      (''Mission 1'', mission_1 env),
      (''Mission 2'', mission_2 env),
      (''Mission 3'', mission_3 env),
      (''Mission 4'', mission_4 env),
      (''Mission 5'', mission_5 env)]"

definition show_selection :: "env \<Rightarrow> int \<Rightarrow> proc" where
  "show_selection env index =
     (case py_index (MISSIONS env) index of
        None \<Rightarrow> raise (IndexError ''list index out of range'')
      | Some (name, fn) \<Rightarrow> block [call (print (''Selected: '' @ name)), set_mission_light index])"

text \<open>\<open>while b in hub.buttons.pressed(): wait(20)\<close>.\<close>

partial_function (option) wait_while_pressed :: "env \<Rightarrow> button \<Rightarrow> world \<Rightarrow> (outcome \<times> world) option" where
  "wait_while_pressed env b w =
     (case hub_buttons_pressed env w of
        (bs, w1) \<Rightarrow>
          if b \<in> bs then wait_while_pressed env b (emit (wait 20) w1)
          else Some (Done, w1))"

text \<open>
  Lines 312 to 331 of \<open>main\<close>, for \<open>name, fn = MISSIONS[selected]\<close>: the start signal, the
  mission inside \<open>try\<close>, the report of its end, the selection shown again, the wait for
  the Bluetooth button to be released.
\<close>

definition launch :: "env \<Rightarrow> string \<Rightarrow> proc \<Rightarrow> int \<Rightarrow> proc" where
  "launch env name fn selected =
     block [call (print (''STARTING (Bluetooth): '' @ name)),
            call (speaker_beep 1000 200),
            call (light_on WHITE),
            call (wait 200),
            try_except (block [fn, call (speaker_beep 600 150)])
                       (\<lambda>e. block [call (print (''Error: '' @ str e)), call (speaker_beep 200 500)]),
            set_mission_light selected,
            show_selection env selected,
            wait_while_pressed env BLUETOOTH]"

definition start_selected :: "env \<Rightarrow> int \<Rightarrow> proc" where
  "start_selected env selected =
     (case py_index (MISSIONS env) selected of
        None \<Rightarrow> raise (IndexError ''list index out of range'')
      | Some (name, fn) \<Rightarrow> launch env name fn selected)"

text \<open>Lines 337 and 344: the index after a RIGHT and after a LEFT press.\<close>

definition select_next :: "env \<Rightarrow> int \<Rightarrow> int" where
  "select_next env selected = (selected + 1) mod int (length (MISSIONS env))"

definition select_previous :: "env \<Rightarrow> int \<Rightarrow> int" where
  "select_previous env selected = (selected - 1) mod int (length (MISSIONS env))"

text \<open>
  One pass of the \<open>while True\<close> loop of \<open>main\<close>. It ends with the value of \<open>selected\<close>
  for the next pass, or with the exception that leaves \<open>main\<close>.
\<close>

datatype pass = Continue int | Propagated exn

definition on_press :: "env \<Rightarrow> button \<Rightarrow> button set \<Rightarrow> int \<Rightarrow> proc" where
  "on_press env b bs selected =
     (if b \<in> bs then block [show_selection env selected, wait_while_pressed env b]
      else block [])"

definition main_pass :: "env \<Rightarrow> int \<Rightarrow> world \<Rightarrow> (pass \<times> world) option" where
  "main_pass env selected w =
     (case emergency_stop_check env w of
        None \<Rightarrow> None
      | Some (Raised x, w1) \<Rightarrow> Some (Propagated x, w1)
      | Some (Done, w1) \<Rightarrow>
          (case hub_buttons_pressed env w1 of
             (bs, w2) \<Rightarrow>
               if BLUETOOTH \<in> bs then
                 (case start_selected env selected w2 of
                    None \<Rightarrow> None
                  | Some (Raised x, w3) \<Rightarrow> Some (Propagated x, w3)
                  | Some (Done, w3) \<Rightarrow> Some (Continue selected, w3))
               else
                 (let s1 = (if RIGHT \<in> bs then select_next env selected else selected);
                      s2 = (if LEFT \<in> bs then select_previous env s1 else s1)
                  in case on_press env RIGHT bs s1 w2 of
                       None \<Rightarrow> None
                     | Some (Raised x, w3) \<Rightarrow> Some (Propagated x, w3)
                     | Some (Done, w3) \<Rightarrow>
                         (case on_press env LEFT bs s2 w3 of
                            None \<Rightarrow> None
                          | Some (Raised x, w4) \<Rightarrow> Some (Propagated x, w4)
                          | Some (Done, w4) \<Rightarrow> Some (Continue s2, emit (wait POLL_MS) w4)))))"

partial_function (option) main_loop :: "env \<Rightarrow> int \<Rightarrow> world \<Rightarrow> (exn \<times> world) option" where
  "main_loop env selected w =
     (case main_pass env selected w of
        None \<Rightarrow> None
      | Some (Propagated x, w1) \<Rightarrow> Some (x, w1)
      | Some (Continue s, w1) \<Rightarrow> main_loop env s w1)"

text \<open>
  \<open>main()\<close>: it returns only by an exception. The second line it prints holds an en dash,
  three bytes in UTF-8.
\<close>

definition main :: "env \<Rightarrow> world \<Rightarrow> (exn \<times> world) option" where
  "main env w =
     (case block [call (print ''READY.''),
                  call (print (''LEFT/RIGHT = choose Mission 0'' @ [CHR 0xE2, CHR 0x80, CHR 0x93] @ ''5'')),
                  call (print ''BLUETOOTH = START immediately''),
                  show_selection env 0] w of
        None \<Rightarrow> None
      | Some (Raised x, w1) \<Rightarrow> Some (x, w1)
      | Some (Done, w1) \<Rightarrow> main_loop env 0 w1)"

section \<open>Vocabulary of the statements\<close>

text \<open>
  \<open>ensures R p\<close>: whenever \<open>p\<close> returns, \<open>R\<close> relates the world before, the outcome and
  the world after. A relation that holds of doing nothing and passes through a normal
  return carries over to blocks and to the loop.
\<close>

definition ensures :: "(world \<Rightarrow> outcome \<Rightarrow> world \<Rightarrow> bool) \<Rightarrow> proc \<Rightarrow> bool" where
  "ensures R p = (\<forall>w r w'. p w = Some (r, w') \<longrightarrow> R w r w')"

definition composable :: "(world \<Rightarrow> outcome \<Rightarrow> world \<Rightarrow> bool) \<Rightarrow> bool" where
  "composable R = ((\<forall>w. R w Done w) \<and> (\<forall>w w1 r w2. R w Done w1 \<and> R w1 r w2 \<longrightarrow> R w r w2))"

text \<open>The events of a call: what the world after it has more than the world before.\<close>

definition new_events :: "world \<Rightarrow> world \<Rightarrow> event list" where
  "new_events w w' = drop (length (trace w)) (trace w')"

text \<open>The two settings of the drive base are as they were.\<close>

definition keeps_settings :: "world \<Rightarrow> outcome \<Rightarrow> world \<Rightarrow> bool" where
  "keeps_settings w r w' =
     (straight_speed w' = straight_speed w \<and> straight_acceleration w' = straight_acceleration w)"

text \<open>A move of the drive base: \<open>robot.straight\<close> or \<open>robot.turn\<close>.\<close>

fun drive_base_move :: "event \<Rightarrow> bool" where
  "drive_base_move (robot_straight d) = True"
| "drive_base_move (robot_turn a) = True"
| "drive_base_move e = False"

text \<open>The headings read from the IMU, in the order they were read.\<close>

fun sample :: "event \<Rightarrow> real list" where
  "sample (imu_heading h) = [h]"
| "sample e = []"

definition headings_sampled :: "event list \<Rightarrow> real list" where
  "headings_sampled evs = concat (map sample evs)"

text \<open>A call only adds events, and each event it adds satisfies \<open>ok\<close>.\<close>

definition adds :: "(event \<Rightarrow> bool) \<Rightarrow> world \<Rightarrow> outcome \<Rightarrow> world \<Rightarrow> bool" where
  "adds ok w r w' = (\<exists>evs. trace w' = trace w @ evs \<and> (\<forall>e \<in> set evs. ok e))"

text \<open>A command that sets a motor or the drive base in motion.\<close>

fun motion_command :: "event \<Rightarrow> bool" where
  "motion_command (robot_straight d) = True"
| "motion_command (robot_turn a) = True"
| "motion_command (motor_run m s) = True"
| "motion_command (motor_run_angle m s a) = True"
| "motion_command e = False"

text \<open>The last heading sampled in a call that returned normally.\<close>

definition last_sample :: "(outcome \<times> world) option \<Rightarrow> real option" where
  "last_sample res =
     (case res of
        Some (Done, w') \<Rightarrow> Some (last (headings_sampled (trace w')))
      | _ \<Rightarrow> None)"

text \<open>The five stop commands of \<open>emergency_stop_check\<close>, in its order.\<close>

definition stop_sequence :: "event list" where
  "stop_sequence = [robot_stop, motor_stop left_motor, motor_stop right_motor,
                    motor_stop motor_c, motor_stop motor_d]"

text \<open>
  A pass of the loop of \<open>gyro_turn\<close> that starts as event \<open>n\<close> leaves the loop: its
  emergency check sees CENTER, or its heading sample has reached the target.
\<close>

definition pass_leaves :: "env \<Rightarrow> real \<Rightarrow> nat \<Rightarrow> bool" where
  "pass_leaves env t n =
     (CENTER \<in> pressed env n \<or> \<bar>t\<bar> \<le> \<bar>normalize_heading (heading env (n + 1))\<bar>)"

text \<open>
  The five stop calls of an emergency check whose poll is event \<open>n\<close> are the events
  \<open>n + 1\<close> to \<open>n + 5\<close>: none of them raises.
\<close>

definition stops_succeed :: "env \<Rightarrow> nat \<Rightarrow> bool" where
  "stops_succeed env n =
     (fault env (n + 1) = None \<and> fault env (n + 2) = None \<and> fault env (n + 3) = None
      \<and> fault env (n + 4) = None \<and> fault env (n + 5) = None)"

text \<open>
  The world an emergency stop leaves behind, when the check was made in \<open>w\<close>: the poll, the
  five stop commands, the beep.
\<close>

definition emergency_stopped :: "env \<Rightarrow> world \<Rightarrow> world" where
  "emergency_stopped env w =
     w\<lparr>trace := trace w @ buttons_pressed (pressed env (length (trace w))) # stop_sequence
                           @ [speaker_beep 200 300]\<rparr>"

text \<open>
  A pass of the loop of \<open>gyro_turn\<close> that starts as event \<open>n\<close> goes round again: it does
  not leave the loop, and its two motor commands, events \<open>n + 2\<close> and \<open>n + 3\<close>, do not
  raise. \<open>pass_done\<close> is the world such a pass leaves, \<open>after_passes k\<close> the world after
  \<open>k\<close> of them, and \<open>turn_at_pass \<dots> w k\<close> the world at the top of pass \<open>k\<close> (counted
  from 0) of a \<open>gyro_turn\<close> called in \<open>w\<close>.
\<close>

definition pass_goes_on :: "env \<Rightarrow> real \<Rightarrow> nat \<Rightarrow> bool" where
  "pass_goes_on env t n =
     (\<not> pass_leaves env t n \<and> fault env (n + 2) = None \<and> fault env (n + 3) = None)"

definition pass_done :: "env \<Rightarrow> real \<Rightarrow> int \<Rightarrow> int \<Rightarrow> world \<Rightarrow> world" where
  "pass_done env t sp ts w =
     w\<lparr>trace := trace w @
          [buttons_pressed (pressed env (length (trace w))),
           imu_heading (heading env (length (trace w) + 1)),
           motor_run left_motor (if t > 0 then - sp else ts * sp),
           motor_run right_motor (if t > 0 then ts * sp else - sp),
           wait 10]\<rparr>"

primrec after_passes :: "nat \<Rightarrow> env \<Rightarrow> real \<Rightarrow> int \<Rightarrow> int \<Rightarrow> world \<Rightarrow> world" where
  "after_passes 0 env t sp ts w = w"
| "after_passes (Suc k) env t sp ts w = after_passes k env t sp ts (pass_done env t sp ts w)"

definition turn_at_pass :: "env \<Rightarrow> real \<Rightarrow> bool \<Rightarrow> bool \<Rightarrow> world \<Rightarrow> nat \<Rightarrow> world" where
  "turn_at_pass env t slow axis w k =
     after_passes k env t (if slow then 100 else 400) (if axis then 1 else 3)
       (w\<lparr>trace := trace w @ [imu_reset_heading 0, wait 150]\<rparr>)"

text \<open>
  The abort is observed in pass \<open>k\<close> of a loop of \<open>gyro_turn\<close> whose first pass starts as
  event \<open>n\<close>: the passes before it go round again, the check of pass \<open>k\<close> sees CENTER, and
  the five stop calls of that check do not raise.
\<close>

definition abort_seen_in_pass :: "env \<Rightarrow> real \<Rightarrow> nat \<Rightarrow> nat \<Rightarrow> bool" where
  "abort_seen_in_pass env t n k =
     ((\<forall>j < k. pass_goes_on env t (n + 5 * j))
      \<and> CENTER \<in> pressed env (n + 5 * k) \<and> stops_succeed env (n + 5 * k))"

text \<open>A command to the drive base or to a motor.\<close>

fun actuator_command :: "event \<Rightarrow> bool" where
  "actuator_command robot_stop = True"
| "actuator_command (robot_settings v a) = True"
| "actuator_command (robot_straight d) = True"
| "actuator_command (robot_turn a) = True"
| "actuator_command (motor_stop m) = True"
| "actuator_command (motor_run m s) = True"
| "actuator_command (motor_run_angle m s a) = True"
| "actuator_command e = False"

text \<open>
  Every actuator has been told to stop and nothing else since: the last five commands to
  the actuators are \<open>robot.stop()\<close> and the stops of the four motors.
\<close>

definition all_stopped :: "event list \<Rightarrow> bool" where
  "all_stopped tr =
     (drop (length (filter actuator_command tr) - 5) (filter actuator_command tr) = stop_sequence)"

text \<open>An event of the selector's own: a poll of the buttons, a wait, a print, the light.\<close>

fun quiet :: "event \<Rightarrow> bool" where
  "quiet (buttons_pressed bs) = True"
| "quiet (wait n) = True"
| "quiet (print s) = True"
| "quiet (light_on c) = True"
| "quiet e = False"

text \<open>The three events that show the selection again after a mission.\<close>

definition shown_again :: "string \<Rightarrow> color \<Rightarrow> event list" where
  "shown_again name c = [light_on c, print (''Selected: '' @ name), light_on c]"

text \<open>The world once the launcher has announced the start of a mission.\<close>

definition started :: "string \<Rightarrow> world \<Rightarrow> world" where
  "started name w =
     w\<lparr>trace := trace w @ [print (''STARTING (Bluetooth): '' @ name), speaker_beep 1000 200,
                            light_on WHITE, wait 200]\<rparr>"

text \<open>
  The world once the \<open>except\<close> branch has reported the exception \<open>x\<close> and the selection is
  shown again.
\<close>

definition failure_shown :: "env \<Rightarrow> int \<Rightarrow> exn \<Rightarrow> world \<Rightarrow> world" where
  "failure_shown env selected x w =
     w\<lparr>trace := trace w @ [print (''Error: '' @ str x), speaker_beep 200 500,
                            light_on (MISSION_COLORS ! nat selected),
                            print (''Selected: '' @ fst (MISSIONS env ! nat selected)),
                            light_on (MISSION_COLORS ! nat selected)]\<rparr>"

section \<open>Concrete runs\<close>

text \<open>The hub just switched on: nothing has happened, no setting has been made.\<close>

definition power_on :: world where
  "power_on = \<lparr>trace = [], straight_speed = 0, straight_acceleration = 0\<rparr>"

text \<open>No button is ever pressed, the robot already stands at 90 degrees, no call raises.\<close>

definition turned :: env where
  "turned = \<lparr>pressed = (\<lambda>n. {}), heading = (\<lambda>n. 90), fault = (\<lambda>n. None)\<rparr>"

text \<open>
  No button is pressed and no call raises; the heading falls by 1.6 degrees from one pass
  of the loop of \<open>gyro_turn\<close> to the next (a pass is five events). This is the robot of the
  repository's test double, whose \<open>wait(ms)\<close> moves the heading by
  \<open>(left.speed - right.speed) * ms * 0.001 * 0.2\<close>, for the motor speeds -400 and 400 and
  the 10 ms of one pass.
\<close>

definition spinning_left :: env where
  "spinning_left = \<lparr>pressed = (\<lambda>n. {}), heading = (\<lambda>n. - (8 / 5) * real (n div 5)), fault = (\<lambda>n. None)\<rparr>"

text \<open>No button is ever pressed, the heading stays 0, no call raises.\<close>

definition stalled :: env where
  "stalled = \<lparr>pressed = (\<lambda>n. {}), heading = (\<lambda>n. 0), fault = (\<lambda>n. None)\<rparr>"

text \<open>CENTER is pressed at every poll; no call raises.\<close>

definition center_held :: env where
  "center_held = \<lparr>pressed = (\<lambda>n. {CENTER}), heading = (\<lambda>n. 0), fault = (\<lambda>n. None)\<rparr>"

text \<open>CENTER is pressed at every poll, and the first call to an actuator (event 1) raises.\<close>

definition idle_stop_fails :: env where
  "idle_stop_fails =
     \<lparr>pressed = (\<lambda>n. {CENTER}), heading = (\<lambda>n. 0),
      fault = (\<lambda>n. if n = 1 then Some (OSError ''[Errno 19] ENODEV'') else None)\<rparr>"

text \<open>
  The operator starts mission 0 with the Bluetooth button (the second poll of the pass) and
  presses CENTER when the first \<open>gyro_turn\<close> of the mission polls for the second time (event
  20); no call raises. The statements of \<open>mission_0\<close>, and the worlds this pass of \<open>main\<close>
  goes through: before the turn, at the top of the second pass of its loop, after the
  emergency stop, and at the end of the pass.
\<close>

definition abort_in_first_turn :: env where
  "abort_in_first_turn =
     \<lparr>pressed = (\<lambda>n. if n = 1 then {BLUETOOTH} else if n = 20 then {CENTER} else {}),
      heading = (\<lambda>n. 0), fault = (\<lambda>n. None)\<rparr>"

definition mission_0_statements :: "env \<Rightarrow> proc list" where
  "mission_0_statements env =
     [setup_drive env,
      call (print ''Mission 0''),
      drive_cm env 15 30 50,
      gyro_turn env 10 True True,
      call (wait 500),
      drive_cm env 55 100 50,
      gyro_turn env (- 55) True True,
      drive_cm env 10 30 30,
      run_motor_for_degrees env motor_d (- 1000) 1000,
      run_motor_for_degrees env motor_c 200 1000,
      call (print ''Turn completed''),
      drive_cm env (- 4) 30 50,
      call (print ''drive complete''),
      gyro_turn env 40 False True,
      drive_cm env (- 60) 30 50,
      gyro_turn env 45 False True,
      drive_cm env (- 30) 30 50]"

text \<open>The world after the two polls of a pass in which the Bluetooth button is down.\<close>

definition start_polled :: world where
  "start_polled = power_on\<lparr>trace := [buttons_pressed {}, buttons_pressed {BLUETOOTH}]\<rparr>"

definition mission_0_before_turn :: world where
  "mission_0_before_turn =
     \<lparr>trace = [buttons_pressed {}, buttons_pressed {BLUETOOTH},
               print ''STARTING (Bluetooth): Mission 0'', speaker_beep 1000 200, light_on WHITE, wait 200,
               robot_stop, robot_settings 300 300, speaker_beep 900 80,
               print ''Mission 0'',
               robot_settings 300 500, robot_straight 150, robot_stop],
      straight_speed = 300, straight_acceleration = 500\<rparr>"

definition mission_0_turning :: world where
  "mission_0_turning =
     mission_0_before_turn
       \<lparr>trace := trace mission_0_before_turn
                  @ [imu_reset_heading 0, wait 150,
                     buttons_pressed {}, imu_heading 0,
                     motor_run left_motor (- 100), motor_run right_motor 100, wait 10]\<rparr>"

definition mission_0_stopped :: world where
  "mission_0_stopped =
     mission_0_turning
       \<lparr>trace := trace mission_0_turning
                  @ [buttons_pressed {CENTER},
                     robot_stop, motor_stop left_motor, motor_stop right_motor,
                     motor_stop motor_c, motor_stop motor_d,
                     speaker_beep 200 300]\<rparr>"

definition aborted_mission_0 :: world where
  "aborted_mission_0 =
     mission_0_stopped
       \<lparr>trace := trace mission_0_stopped
                  @ [print ''Error: Emergency stop'', speaker_beep 200 500,
                     light_on RED, print ''Selected: Mission 0'', light_on RED,
                     buttons_pressed {}]\<rparr>"

text \<open>
  The same run, but \<open>robot.stop()\<close>, the first stop call of the emergency check (event 21),
  raises \<open>OSError\<close>. \<open>unstopped_mission_0\<close> is the world the pass ends in.
\<close>

definition stop_fails :: env where
  "stop_fails =
     \<lparr>pressed = (\<lambda>n. if n = 1 then {BLUETOOTH} else if n = 20 then {CENTER} else {}),
      heading = (\<lambda>n. 0),
      fault = (\<lambda>n. if n = 21 then Some (OSError ''[Errno 19] ENODEV'') else None)\<rparr>"

definition unstopped_mission_0 :: world where
  "unstopped_mission_0 =
     mission_0_turning
       \<lparr>trace := trace mission_0_turning
                  @ [buttons_pressed {CENTER},
                     robot_stop, raised (OSError ''[Errno 19] ENODEV''),
                     print ''Error: [Errno 19] ENODEV'', speaker_beep 200 500,
                     light_on RED, print ''Selected: Mission 0'', light_on RED,
                     buttons_pressed {}]\<rparr>"

text \<open>
  One tap on RIGHT, and one tap on LEFT: the button is down at the second poll of the pass
  and released at the next poll.
\<close>

definition right_tap :: env where
  "right_tap = \<lparr>pressed = (\<lambda>n. if n = 1 then {RIGHT} else {}), heading = (\<lambda>n. 0), fault = (\<lambda>n. None)\<rparr>"

definition left_tap :: env where
  "left_tap = \<lparr>pressed = (\<lambda>n. if n = 1 then {LEFT} else {}), heading = (\<lambda>n. 0), fault = (\<lambda>n. None)\<rparr>"

text \<open>
  The operator starts mission 3; its first \<open>robot.straight\<close> (event 11) raises \<open>OSError\<close>.
  The statements of \<open>mission_3\<close>, and the worlds the run goes through.
\<close>

definition drive_fails :: env where
  "drive_fails =
     \<lparr>pressed = (\<lambda>n. if n = 1 then {BLUETOOTH} else {}),
      heading = (\<lambda>n. 0),
      fault = (\<lambda>n. if n = 11 then Some (OSError ''[Errno 19] ENODEV'') else None)\<rparr>"

definition mission_3_statements :: "env \<Rightarrow> proc list" where
  "mission_3_statements env =
     [setup_drive env, call (print ''Mission 3''), drive_cm env 41 30 5,
      drive_cm env (- 15) 17 15, drive_cm env 31 15 10, drive_cm env (- 50) 30 10]"

definition mission_3_before_drive :: world where
  "mission_3_before_drive =
     \<lparr>trace = [buttons_pressed {}, buttons_pressed {BLUETOOTH},
               print ''STARTING (Bluetooth): Mission 3'', speaker_beep 1000 200, light_on WHITE, wait 200,
               robot_stop, robot_settings 300 300, speaker_beep 900 80,
               print ''Mission 3''],
      straight_speed = 300, straight_acceleration = 300\<rparr>"

definition mission_3_drive_failed :: world where
  "mission_3_drive_failed =
     \<lparr>trace = trace mission_3_before_drive
               @ [robot_settings 300 50, robot_straight 410, raised (OSError ''[Errno 19] ENODEV'')],
      straight_speed = 300, straight_acceleration = 50\<rparr>"

definition failed_mission_3 :: world where
  "failed_mission_3 =
     \<lparr>trace = trace mission_3_drive_failed
               @ [print ''Error: [Errno 19] ENODEV'', speaker_beep 200 500,
                  light_on GREEN, print ''Selected: Mission 3'', light_on GREEN,
                  buttons_pressed {}],
      straight_speed = 300, straight_acceleration = 50\<rparr>"

section \<open>Basic facts about events and worlds\<close>

lemma length_MISSIONS: "length (MISSIONS env) = 6"
  by (simp add: MISSIONS_def)

lemma trace_emit [simp]: "trace (emit e w) = trace w @ [e]"
  by (simp add: emit_def)

lemma straight_speed_emit [simp]: "straight_speed (emit e w) = straight_speed w"
  by (simp add: emit_def)

lemma straight_acceleration_emit [simp]: "straight_acceleration (emit e w) = straight_acceleration w"
  by (simp add: emit_def)

lemma trace_effect [simp]: "trace (effect e w) = trace w"
  by (cases e) simp_all

section \<open>Reasoning about the loops\<close>

text \<open>
  Induction over the passes of the loop of \<open>gyro_turn\<close>, for a call that returns: the
  pass on which the emergency check raises, the pass on which the heading has reached the
  target, a pass on which a motor command raises, and a pass that goes round again.
\<close>

lemma gyro_turn_loop_induct [consumes 1, case_names check_raises reached motors_raise again]:
  assumes run: "gyro_turn_loop env t sp ts w = Some y"
    and a: "\<And>w x w1. emergency_stop_check env w = Some (Raised x, w1) \<Longrightarrow> P w (Raised x, w1)"
    and b: "\<And>w w1. emergency_stop_check env w = Some (Done, w1) \<Longrightarrow>
              \<bar>t\<bar> \<le> \<bar>normalize_heading (heading env (length (trace w1)))\<bar> \<Longrightarrow>
              P w (Done, emit (imu_heading (heading env (length (trace w1)))) w1)"
    and c: "\<And>w w1 x w3. emergency_stop_check env w = Some (Done, w1) \<Longrightarrow>
              \<not> \<bar>t\<bar> \<le> \<bar>normalize_heading (heading env (length (trace w1)))\<bar> \<Longrightarrow>
              turn_motors env t sp ts (emit (imu_heading (heading env (length (trace w1)))) w1) = Some (Raised x, w3) \<Longrightarrow>
              P w (Raised x, w3)"
    and d: "\<And>w w1 w3 y. emergency_stop_check env w = Some (Done, w1) \<Longrightarrow>
              \<not> \<bar>t\<bar> \<le> \<bar>normalize_heading (heading env (length (trace w1)))\<bar> \<Longrightarrow>
              turn_motors env t sp ts (emit (imu_heading (heading env (length (trace w1)))) w1) = Some (Done, w3) \<Longrightarrow>
              P w3 y \<Longrightarrow> P w y"
  shows "P w y"
proof -
  have "env' = env \<and> t' = t \<and> sp' = sp \<and> ts' = ts \<longrightarrow> P w y"
    if "gyro_turn_loop env' t' sp' ts' w = Some y" for env' t' sp' ts'
  proof (rule gyro_turn_loop.raw_induct
      [where P = "\<lambda>env' t' sp' ts' w y. env' = env \<and> t' = t \<and> sp' = sp \<and> ts' = ts \<longrightarrow> P w y", OF _ that])
    fix loop env' t' sp' ts' w y
    assume IH: "\<And>env' t' sp' ts' w y. loop env' t' sp' ts' w = Some y \<Longrightarrow>
                  env' = env \<and> t' = t \<and> sp' = sp \<and> ts' = ts \<longrightarrow> P w y"
      and body: "(case emergency_stop_check env' w of
        None \<Rightarrow> None
      | Some (Raised x, w1) \<Rightarrow> Some (Raised x, w1)
      | Some (Done, w1) \<Rightarrow>
          (case hub_imu_heading env' w1 of
             (h, w2) \<Rightarrow>
               if \<bar>normalize_heading h\<bar> \<ge> \<bar>t'\<bar> then Some (Done, w2)
               else
                 (case turn_motors env' t' sp' ts' w2 of
                    None \<Rightarrow> None
                  | Some (Raised x, w3) \<Rightarrow> Some (Raised x, w3)
                  | Some (Done, w3) \<Rightarrow> loop env' t' sp' ts' w3))) = Some y"
    show "env' = env \<and> t' = t \<and> sp' = sp \<and> ts' = ts \<longrightarrow> P w y"
    proof
      assume e: "env' = env \<and> t' = t \<and> sp' = sp \<and> ts' = ts"
      then have e': "env' = env" "t' = t" "sp' = sp" "ts' = ts" by simp_all
      note bd = body [unfolded e']
      from bd obtain r1 w1 where c1: "emergency_stop_check env w = Some (r1, w1)"
        by (auto split: option.splits)
      show "P w y"
      proof (cases r1)
        case (Raised x)
        with bd c1 have "y = (Raised x, w1)" by simp
        with a c1 Raised show ?thesis by simp
      next
        case Done
        note c1 = c1 [unfolded Done]
        show ?thesis
        proof (cases "\<bar>t\<bar> \<le> \<bar>normalize_heading (heading env (length (trace w1)))\<bar>")
          case True
          with bd c1 have "y = (Done, emit (imu_heading (heading env (length (trace w1)))) w1)"
            by (simp add: hub_imu_heading_def)
          with b [OF c1 True] show ?thesis by simp
        next
          case False
          with bd c1 have bd2: "(case turn_motors env t sp ts (emit (imu_heading (heading env (length (trace w1)))) w1) of
                    None \<Rightarrow> None
                  | Some (Raised x, w3) \<Rightarrow> Some (Raised x, w3)
                  | Some (Done, w3) \<Rightarrow> loop env t sp ts w3) = Some y"
            by (simp add: hub_imu_heading_def)
          then obtain r3 w3 where c3: "turn_motors env t sp ts (emit (imu_heading (heading env (length (trace w1)))) w1) = Some (r3, w3)"
            by (auto split: option.splits)
          show ?thesis
          proof (cases r3)
            case (Raised x)
            with bd2 c3 have "y = (Raised x, w3)" by simp
            with c [OF c1 False] c3 Raised show ?thesis by simp
          next
            case Done
            with bd2 c3 have "loop env t sp ts w3 = Some y" by simp
            from IH [OF this] have "P w3 y" by simp
            with d [OF c1 False] c3 Done show ?thesis by simp
          qed
        qed
      qed
    qed
  qed
  from this [OF run] show ?thesis by simp
qed

text \<open>Induction over the polls of \<open>while b in hub.buttons.pressed(): wait(20)\<close>.\<close>

lemma wait_while_pressed_induct [consumes 1, case_names released held]:
  assumes run: "wait_while_pressed env b w = Some y"
    and stop: "\<And>w. b \<notin> pressed env (length (trace w)) \<Longrightarrow>
                 P w (Done, emit (buttons_pressed (pressed env (length (trace w)))) w)"
    and step: "\<And>w y. b \<in> pressed env (length (trace w)) \<Longrightarrow>
                 P (emit (wait 20) (emit (buttons_pressed (pressed env (length (trace w)))) w)) y \<Longrightarrow> P w y"
  shows "P w y"
proof -
  have "env' = env \<and> b' = b \<longrightarrow> P w y" if "wait_while_pressed env' b' w = Some y" for env' b'
  proof (rule wait_while_pressed.raw_induct
      [where P = "\<lambda>env' b' w y. env' = env \<and> b' = b \<longrightarrow> P w y", OF _ that])
    fix loop env' b' w y
    assume IH: "\<And>env' b' w y. loop env' b' w = Some y \<Longrightarrow> env' = env \<and> b' = b \<longrightarrow> P w y"
      and body: "(case hub_buttons_pressed env' w of
        (bs, w1) \<Rightarrow>
          if b' \<in> bs then loop env' b' (emit (wait 20) w1)
          else Some (Done, w1)) = Some y"
    show "env' = env \<and> b' = b \<longrightarrow> P w y"
    proof
      assume "env' = env \<and> b' = b"
      then have e: "env' = env" "b' = b" by simp_all
      note bd = body [unfolded e]
      show "P w y"
      proof (cases "b \<in> pressed env (length (trace w))")
        case True
        with bd have "loop env b (emit (wait 20) (emit (buttons_pressed (pressed env (length (trace w)))) w)) = Some y"
          by (simp add: hub_buttons_pressed_def)
        from IH [OF this] have "P (emit (wait 20) (emit (buttons_pressed (pressed env (length (trace w)))) w)) y"
          by simp
        with step True show ?thesis by simp
      next
        case False
        with bd have "y = (Done, emit (buttons_pressed (pressed env (length (trace w)))) w)"
          by (simp add: hub_buttons_pressed_def)
        with stop False show ?thesis by simp
      qed
    qed
  qed
  from this [OF run] show ?thesis by simp
qed

lemma ensuresD: "ensures R p \<Longrightarrow> p w = Some (r, w') \<Longrightarrow> R w r w'"
  by (simp add: ensures_def)

lemma composable_refl: "composable R \<Longrightarrow> R w Done w"
  by (simp add: composable_def)

lemma composable_trans: "composable R \<Longrightarrow> R w Done w1 \<Longrightarrow> R w1 r w2 \<Longrightarrow> R w r w2"
  unfolding composable_def by blast

lemma ensures_block:
  assumes R: "composable R" and ps: "\<forall>p \<in> set ps. ensures R p"
  shows "ensures R (block ps)"
  unfolding ensures_def
proof (intro allI impI)
  fix w r w'
  assume "block ps w = Some (r, w')"
  with ps show "R w r w'"
  proof (induction ps arbitrary: w)
    case Nil
    then show ?case using R by (simp add: composable_refl)
  next
    case (Cons p ps)
    from Cons.prems(2) obtain r1 w1 where p: "p w = Some (r1, w1)"
      by (auto split: option.splits)
    have R1: "R w r1 w1" using Cons.prems(1) p by (auto dest: ensuresD)
    show ?case
    proof (cases r1)
      case Done
      with p Cons.prems(2) have "block ps w1 = Some (r, w')" by simp
      with Cons.IH Cons.prems(1) have "R w1 r w'" by simp
      with R1 Done R show ?thesis by (auto intro: composable_trans)
    next
      case (Raised x)
      with p Cons.prems(2) have "r = r1" "w' = w1" by simp_all
      with R1 show ?thesis by simp
    qed
  qed
qed

lemma ensures_turn_motors:
  assumes R: "composable R"
    and run: "\<And>m s. ensures R (actuate env (motor_run m s))"
    and cl: "ensures R (call (wait 10))"
  shows "ensures R (turn_motors env t sp ts)"
  unfolding turn_motors_def using run cl by (auto intro!: ensures_block R)

lemma ensures_gyro_turn_loop:
  assumes R: "composable R"
    and chk: "ensures R (emergency_stop_check env)"
    and rd: "\<And>w h. R w Done (emit (imu_heading h) w)"
    and run: "\<And>m s. ensures R (actuate env (motor_run m s))"
    and cl: "ensures R (call (wait 10))"
  shows "ensures R (gyro_turn_loop env t sp ts)"
proof -
  have "R w (fst y) (snd y)" if "gyro_turn_loop env t sp ts w = Some y" for w y
    using that
  proof (induction rule: gyro_turn_loop_induct)
    case (check_raises w x w1)
    then show ?case using chk by (auto dest: ensuresD)
  next
    case (reached w w1)
    then show ?case using chk rd by (auto dest!: ensuresD intro: composable_trans [OF R])
  next
    case (motors_raise w w1 x w3)
    have "R w Done (emit (imu_heading (heading env (length (trace w1)))) w1)"
      using motors_raise(1) chk rd by (auto dest!: ensuresD intro: composable_trans [OF R])
    moreover have "R (emit (imu_heading (heading env (length (trace w1)))) w1) (Raised x) w3"
      using motors_raise(3) ensures_turn_motors [OF R run cl] by (auto dest: ensuresD)
    ultimately show ?case by (auto intro: composable_trans [OF R])
  next
    case (again w w1 w3 y)
    have "R w Done (emit (imu_heading (heading env (length (trace w1)))) w1)"
      using again(1) chk rd by (auto dest!: ensuresD intro: composable_trans [OF R])
    moreover have "R (emit (imu_heading (heading env (length (trace w1)))) w1) Done w3"
      using again(3) ensures_turn_motors [OF R run cl] by (auto dest: ensuresD)
    ultimately have "R w Done w3" by (auto intro: composable_trans [OF R])
    with again(4) show ?case by (auto intro: composable_trans [OF R])
  qed
  then show ?thesis by (auto simp: ensures_def)
qed

lemma ensures_gyro_turn:
  assumes R: "composable R"
    and chk: "ensures R (emergency_stop_check env)"
    and rd: "\<And>w h. R w Done (emit (imu_heading h) w)"
    and run: "\<And>m s. ensures R (actuate env (motor_run m s))"
    and stop: "\<And>m. ensures R (actuate env (motor_stop m))"
    and wt: "\<And>n. ensures R (call (wait n))"
    and rs: "ensures R (call (imu_reset_heading 0))"
  shows "ensures R (gyro_turn env t slow axis)"
  unfolding gyro_turn_def
  by (intro ensures_block R) (simp add: wt rs stop ensures_gyro_turn_loop [OF R chk rd run wt])

section \<open>What single calls do\<close>

lemma emergency_stop_check_Done:
  "emergency_stop_check env w = Some (Done, w1) \<longleftrightarrow>
     CENTER \<notin> pressed env (length (trace w)) \<and> w1 = emit (buttons_pressed (pressed env (length (trace w)))) w"
  by (auto simp: emergency_stop_check_def hub_buttons_pressed_def actuate_def call_def raise_def
           split: option.splits)

lemmas run_defs = gyro_turn_def emergency_stop_check_def hub_buttons_pressed_def hub_imu_heading_def
  turn_motors_def actuate_def call_def raise_def emit_def normalize_heading_def

subsection \<open>The settings of the drive base\<close>

lemma composable_keeps_settings: "composable keeps_settings"
  by (simp add: composable_def keeps_settings_def)

lemma keeps_settings_call: "ensures keeps_settings (call e)"
  by (simp add: ensures_def keeps_settings_def call_def)

lemma keeps_settings_raise: "ensures keeps_settings (raise x)"
  by (simp add: ensures_def keeps_settings_def raise_def)

lemma keeps_settings_actuate:
  "(\<And>v a. e \<noteq> robot_settings v a) \<Longrightarrow> ensures keeps_settings (actuate env e)"
  by (cases e) (auto simp: ensures_def keeps_settings_def actuate_def split: option.splits)

lemma keeps_settings_check: "ensures keeps_settings (emergency_stop_check env)"
proof -
  have "ensures keeps_settings (block [actuate env robot_stop,
                   actuate env (motor_stop left_motor),
                   actuate env (motor_stop right_motor),
                   actuate env (motor_stop motor_c),
                   actuate env (motor_stop motor_d),
                   call (speaker_beep 200 300),
                   raise (RuntimeError ''Emergency stop'')])"
    by (intro ensures_block composable_keeps_settings)
       (simp add: keeps_settings_call keeps_settings_raise keeps_settings_actuate)
  then show ?thesis
    by (auto simp: ensures_def emergency_stop_check_def hub_buttons_pressed_def keeps_settings_def
             simp del: block.simps)
qed

lemma keeps_settings_gyro_turn: "ensures keeps_settings (gyro_turn env t slow axis)"
  by (rule ensures_gyro_turn [OF composable_keeps_settings keeps_settings_check])
     (simp_all add: keeps_settings_actuate keeps_settings_call, simp add: keeps_settings_def)

subsection \<open>Events that a call adds\<close>

lemma composable_adds: "composable (adds ok)"
  by (auto simp: composable_def adds_def)

lemma adds_call: "ok e \<Longrightarrow> ensures (adds ok) (call e)"
  by (simp add: ensures_def adds_def call_def)

lemma adds_raise: "ensures (adds ok) (raise x)"
  by (simp add: ensures_def adds_def raise_def)

lemma adds_emit: "ok e \<Longrightarrow> adds ok w Done (emit e w)"
  by (simp add: adds_def)

lemma adds_actuate: "ok e \<Longrightarrow> (\<And>x. ok (raised x)) \<Longrightarrow> ensures (adds ok) (actuate env e)"
  by (auto simp: ensures_def adds_def actuate_def split: option.splits)

lemma adds_check:
  assumes "\<And>bs. ok (buttons_pressed bs)" "ok robot_stop" "\<And>m. ok (motor_stop m)"
    "ok (speaker_beep 200 300)" "\<And>x. ok (raised x)"
  shows "ensures (adds ok) (emergency_stop_check env)"
proof -
  have b: "ensures (adds ok) (block [actuate env robot_stop,
                   actuate env (motor_stop left_motor),
                   actuate env (motor_stop right_motor),
                   actuate env (motor_stop motor_c),
                   actuate env (motor_stop motor_d),
                   call (speaker_beep 200 300),
                   raise (RuntimeError ''Emergency stop'')])"
    by (intro ensures_block composable_adds) (simp add: adds_call adds_raise adds_actuate assms)
  show ?thesis
    unfolding ensures_def
  proof (intro allI impI)
    fix w r w'
    assume run: "emergency_stop_check env w = Some (r, w')"
    let ?w1 = "emit (buttons_pressed (pressed env (length (trace w)))) w"
    have 1: "adds ok w Done ?w1" by (rule adds_emit) (rule assms)
    show "adds ok w r w'"
    proof (cases "CENTER \<in> pressed env (length (trace w))")
      case True
      with run have "adds ok ?w1 r w'"
        using b by (auto simp: emergency_stop_check_def hub_buttons_pressed_def simp del: block.simps dest: ensuresD)
      with 1 show ?thesis by (rule composable_trans [OF composable_adds])
    next
      case False
      with run 1 show ?thesis
        by (auto simp: emergency_stop_check_def hub_buttons_pressed_def)
    qed
  qed
qed

lemma adds_gyro_turn:
  assumes "\<And>bs. ok (buttons_pressed bs)" "ok robot_stop" "\<And>m. ok (motor_stop m)"
    "ok (speaker_beep 200 300)" "\<And>x. ok (raised x)" "\<And>h. ok (imu_heading h)"
    "\<And>m s. ok (motor_run m s)" "\<And>n. ok (wait n)" "ok (imu_reset_heading 0)"
  shows "ensures (adds ok) (gyro_turn env t slow axis)"
  by (rule ensures_gyro_turn [OF composable_adds adds_check])
     (simp_all add: assms adds_emit adds_actuate adds_call)

lemma not_move_gyro_turn: "ensures (adds (\<lambda>e. \<not> drive_base_move e)) (gyro_turn env t slow axis)"
  by (rule adds_gyro_turn) simp_all

lemma turn_motors_Done:
  assumes "fault env (length (trace w)) = None" and "fault env (Suc (length (trace w))) = None"
  shows "turn_motors env t sp ts w =
         Some (Done, w\<lparr>trace := trace w @
                 [motor_run left_motor (if t > 0 then - sp else ts * sp),
                  motor_run right_motor (if t > 0 then ts * sp else - sp),
                  wait 10]\<rparr>)"
  using assms by (simp add: turn_motors_def actuate_def call_def emit_def)

lemma gyro_turn_loop_goes_on:
  assumes c: "CENTER \<notin> pressed env (length (trace w))"
    and h: "\<not> \<bar>t\<bar> \<le> \<bar>normalize_heading (heading env (length (trace w) + 1))\<bar>"
    and f2: "fault env (length (trace w) + 2) = None"
    and f3: "fault env (length (trace w) + 3) = None"
  shows "gyro_turn_loop env t sp ts w =
         gyro_turn_loop env t sp ts
           (w\<lparr>trace := trace w @
                 [buttons_pressed (pressed env (length (trace w))),
                  imu_heading (heading env (length (trace w) + 1)),
                  motor_run left_motor (if t > 0 then - sp else ts * sp),
                  motor_run right_motor (if t > 0 then ts * sp else - sp),
                  wait 10]\<rparr>)"
proof -
  let ?w1 = "emit (buttons_pressed (pressed env (length (trace w)))) w"
  let ?w2 = "emit (imu_heading (heading env (length (trace w) + 1))) ?w1"
  have chk: "emergency_stop_check env w = Some (Done, ?w1)"
    using c by (simp add: emergency_stop_check_Done)
  have rd: "hub_imu_heading env ?w1 = (heading env (length (trace w) + 1), ?w2)"
    by (simp add: hub_imu_heading_def)
  have "length (trace ?w2) = length (trace w) + 2" "Suc (length (trace ?w2)) = length (trace w) + 3"
    by simp_all
  with f2 f3 have "fault env (length (trace ?w2)) = None" "fault env (Suc (length (trace ?w2))) = None"
    by metis+
  from turn_motors_Done [OF this]
  have tm: "turn_motors env t sp ts ?w2 =
         Some (Done, ?w2\<lparr>trace := trace ?w2 @
                 [motor_run left_motor (if t > 0 then - sp else ts * sp),
                  motor_run right_motor (if t > 0 then ts * sp else - sp),
                  wait 10]\<rparr>)" .
  show ?thesis
    by (subst gyro_turn_loop.simps,
        simp only: chk rd tm h option.case prod.case outcome.case if_False)
       (simp add: emit_def)
qed

subsection \<open>The headings a turn samples\<close>

lemma headings_sampled_append [simp]:
  "headings_sampled (a @ b) = headings_sampled a @ headings_sampled b"
  by (simp add: headings_sampled_def)

lemma headings_sampled_simps [simp]:
  "headings_sampled [] = []"
  "headings_sampled (imu_heading h # evs) = h # headings_sampled evs"
  "headings_sampled (buttons_pressed bs # evs) = headings_sampled evs"
  "headings_sampled (motor_run m s # evs) = headings_sampled evs"
  "headings_sampled (motor_stop m # evs) = headings_sampled evs"
  "headings_sampled (wait n # evs) = headings_sampled evs"
  "headings_sampled (imu_reset_heading a # evs) = headings_sampled evs"
  by (simp_all add: headings_sampled_def)

subsection \<open>When the loop of the turn ends\<close>

lemma emergency_stop_check_no_fault:
  assumes "\<forall>n. fault env n = None"
  shows "emergency_stop_check env w =
     (if CENTER \<in> pressed env (length (trace w))
      then Some (Raised (RuntimeError ''Emergency stop''),
                 w\<lparr>trace := trace w @ buttons_pressed (pressed env (length (trace w))) # stop_sequence
                                       @ [speaker_beep 200 300]\<rparr>)
      else Some (Done, emit (buttons_pressed (pressed env (length (trace w)))) w))"
  using assms
  by (simp add: emergency_stop_check_def hub_buttons_pressed_def actuate_def call_def raise_def
        emit_def stop_sequence_def)

lemma gyro_turn_loop_returns_only_if:
  assumes nf: "\<forall>n. fault env n = None" and run: "gyro_turn_loop env t sp ts w = Some y"
  shows "\<exists>k. pass_leaves env t (length (trace w) + 5 * k)"
  using run
proof (induction rule: gyro_turn_loop_induct)
  case (check_raises w x w1)
  then have "pass_leaves env t (length (trace w) + 5 * 0)"
    by (simp add: emergency_stop_check_no_fault [OF nf] pass_leaves_def split: if_splits)
  then show ?case by blast
next
  case (reached w w1)
  then have "pass_leaves env t (length (trace w) + 5 * 0)"
    by (simp add: emergency_stop_check_Done pass_leaves_def)
  then show ?case by blast
next
  case (motors_raise w w1 x w3)
  then show ?case using nf by (simp add: turn_motors_Done)
next
  case (again w w1 w3 y)
  from again(1) have w1: "w1 = emit (buttons_pressed (pressed env (length (trace w)))) w"
    by (simp add: emergency_stop_check_Done)
  from again(3) nf have "length (trace w3) = length (trace w) + 5"
    by (simp add: turn_motors_Done w1) auto
  with again(4) obtain k where "pass_leaves env t (length (trace w) + 5 * Suc k)"
    by (auto simp: add.assoc)
  then show ?case by blast
qed

subsection \<open>The emergency stop in the loop of the turn\<close>

lemma emergency_stop_check_stops:
  assumes "CENTER \<in> pressed env (length (trace w))" "stops_succeed env (length (trace w))"
  shows "emergency_stop_check env w =
           Some (Raised (RuntimeError ''Emergency stop''), emergency_stopped env w)"
proof -
  let ?n = "length (trace w)"
  from assms(2) have "fault env (Suc ?n) = None" "fault env (Suc (Suc ?n)) = None"
    "fault env (Suc (Suc (Suc ?n))) = None" "fault env (Suc (Suc (Suc (Suc ?n)))) = None"
    "fault env (Suc (Suc (Suc (Suc (Suc ?n))))) = None"
    by (simp_all add: stops_succeed_def eval_nat_numeral)
  with assms(1) show ?thesis
    by (simp add: emergency_stop_check_def hub_buttons_pressed_def actuate_def call_def raise_def
          emit_def stop_sequence_def emergency_stopped_def)
qed

lemma emergency_stop_check_raises:
  assumes "CENTER \<in> pressed env (length (trace w))"
  shows "\<exists>x w'. emergency_stop_check env w = Some (Raised x, w')"
  using assms
  by (simp add: emergency_stop_check_def hub_buttons_pressed_def actuate_def call_def raise_def
        split: option.splits)

lemma length_after_passes:
  "length (trace (after_passes k env t sp ts w)) = length (trace w) + 5 * k"
  by (induction k arbitrary: w) (simp_all add: pass_done_def)

lemma gyro_turn_loop_after_passes:
  "(\<forall>j < k. pass_goes_on env t (length (trace w) + 5 * j)) \<Longrightarrow>
   gyro_turn_loop env t sp ts w = gyro_turn_loop env t sp ts (after_passes k env t sp ts w)"
proof (induction k arbitrary: w)
  case 0
  show ?case by simp
next
  case (Suc k)
  from Suc.prems have 0: "pass_goes_on env t (length (trace w))" by force
  then have eq: "gyro_turn_loop env t sp ts w = gyro_turn_loop env t sp ts (pass_done env t sp ts w)"
    unfolding pass_done_def
    by (intro gyro_turn_loop_goes_on) (simp_all add: pass_goes_on_def pass_leaves_def)
  have "\<forall>j < k. pass_goes_on env t (length (trace (pass_done env t sp ts w)) + 5 * j)"
  proof (intro allI impI)
    fix j assume "j < k"
    then have "Suc j < Suc k" by simp
    with Suc.prems have "pass_goes_on env t (length (trace w) + 5 * Suc j)" by blast
    moreover have "length (trace (pass_done env t sp ts w)) + 5 * j = length (trace w) + 5 * Suc j"
      by (simp add: pass_done_def)
    ultimately show "pass_goes_on env t (length (trace (pass_done env t sp ts w)) + 5 * j)"
      by metis
  qed
  from Suc.IH [OF this] eq show ?case by simp
qed

lemma gyro_turn_loop_check_raises:
  "emergency_stop_check env w = Some (Raised x, w1) \<Longrightarrow>
   gyro_turn_loop env t sp ts w = Some (Raised x, w1)"
  by (subst gyro_turn_loop.simps) simp

lemma gyro_turn_abort:
  assumes "abort_seen_in_pass env t (length (trace u) + 2) k"
  shows "gyro_turn env t slow axis u =
           Some (Raised (RuntimeError ''Emergency stop''),
                 emergency_stopped env (turn_at_pass env t slow axis u k))"
proof -
  define sp :: int where "sp = (if slow then 100 else 400)"
  define ts :: int where "ts = (if axis then 1 else 3)"
  define u2 where "u2 = u\<lparr>trace := trace u @ [imu_reset_heading 0, wait 150]\<rparr>"
  define v where "v = after_passes k env t sp ts u2"
  have l2: "length (trace u2) = length (trace u) + 2" by (simp add: u2_def)
  have lv: "length (trace v) = length (trace u) + 2 + 5 * k"
    by (simp add: v_def length_after_passes l2)
  from assms have on: "\<forall>j < k. pass_goes_on env t (length (trace u2) + 5 * j)"
    and c: "CENTER \<in> pressed env (length (trace v))" and s: "stops_succeed env (length (trace v))"
    by (simp_all add: abort_seen_in_pass_def l2 lv)
  have "gyro_turn_loop env t sp ts u2 = gyro_turn_loop env t sp ts v"
    unfolding v_def using on by (rule gyro_turn_loop_after_passes)
  also have "\<dots> = Some (Raised (RuntimeError ''Emergency stop''), emergency_stopped env v)"
    by (rule gyro_turn_loop_check_raises) (rule emergency_stop_check_stops [OF c s])
  finally have loop: "gyro_turn_loop env t sp ts u2
        = Some (Raised (RuntimeError ''Emergency stop''), emergency_stopped env v)" .
  have "gyro_turn env t slow axis u = block [gyro_turn_loop env t sp ts, actuate env (motor_stop left_motor),
            actuate env (motor_stop right_motor), call (wait 100)] u2"
    unfolding gyro_turn_def sp_def [symmetric] ts_def [symmetric] u2_def
    by (simp add: call_def emit_def)
  also have "\<dots> = Some (Raised (RuntimeError ''Emergency stop''), emergency_stopped env v)"
    by (simp add: loop)
  finally show ?thesis
    by (simp add: v_def u2_def turn_at_pass_def sp_def ts_def)
qed

subsection \<open>The launcher\<close>

lemma length_MISSION_COLORS: "length MISSION_COLORS = 6"
  by (simp add: MISSION_COLORS_def)

lemma launch_unfold:
  assumes m: "py_index (MISSIONS env) selected = Some (name', fn')"
    and c: "py_index MISSION_COLORS selected = Some c"
  shows "launch env name fn selected w =
     (case fn (w\<lparr>trace := trace w @ [print (''STARTING (Bluetooth): '' @ name), speaker_beep 1000 200,
                                      light_on WHITE, wait 200]\<rparr>) of
        None \<Rightarrow> None
      | Some (Done, w1) \<Rightarrow>
          wait_while_pressed env BLUETOOTH
            (w1\<lparr>trace := trace w1 @ speaker_beep 600 150 # shown_again name' c\<rparr>)
      | Some (Raised x, w1) \<Rightarrow>
          wait_while_pressed env BLUETOOTH
            (w1\<lparr>trace := trace w1 @ print (''Error: '' @ str x) # speaker_beep 200 500 # shown_again name' c\<rparr>))"
  by (simp add: launch_def call_def try_except_def set_mission_light_def show_selection_def m c
        emit_def shown_again_def
      split: option.splits outcome.splits)

lemma wait_while_pressed_quiet:
  assumes "wait_while_pressed env b w = Some y"
  shows "fst y = Done \<and> adds quiet w (fst y) (snd y)"
  using assms
proof (induction rule: wait_while_pressed_induct)
  case (released w)
  then show ?case by (simp add: adds_def)
next
  case (held w y)
  then obtain evs where "trace (snd y) = trace w @ [buttons_pressed (pressed env (length (trace w))), wait 20] @ evs"
    "\<forall>e \<in> set evs. quiet e" by (auto simp: adds_def)
  then have "adds quiet w (fst y) (snd y)"
    unfolding adds_def by (intro exI [of _ "[buttons_pressed (pressed env (length (trace w))), wait 20] @ evs"]) simp
  with held show ?case by simp
qed

lemma all_stopped_append:
  assumes "\<forall>e \<in> set b. \<not> actuator_command e"
  shows "all_stopped (a @ stop_sequence @ b)"
proof -
  have "filter actuator_command b = []" using assms by (simp add: filter_empty_conv)
  moreover have "filter actuator_command stop_sequence = stop_sequence"
    by (simp add: stop_sequence_def)
  moreover have "length stop_sequence = 5" by (simp add: stop_sequence_def)
  ultimately show ?thesis by (simp add: all_stopped_def)
qed

subsection \<open>One pass of the selector\<close>

lemma quiet_not_actuator: "quiet e \<Longrightarrow> \<not> actuator_command e"
  by (cases e) simp_all

lemma quiet_not_beep: "quiet e \<Longrightarrow> e \<noteq> speaker_beep f d"
  by (cases e) simp_all

lemmas selector_defs = main_pass_def start_selected_def launch_def try_except_def py_index_def
  MISSIONS_def MISSION_COLORS_def show_selection_def set_mission_light_def on_press_def
  select_next_def select_previous_def POLL_MS_def setup_drive_def beep_ok_def drive_cm_def
  run_motor_for_degrees_def

lemma aborted_mission_0_runs:
  "main_pass abort_in_first_turn 0 power_on = Some (Continue 0, aborted_mission_0)"
  by (simp add: selector_defs mission_0_def run_defs gyro_turn_loop.simps wait_while_pressed.simps
        abort_in_first_turn_def power_on_def aborted_mission_0_def mission_0_stopped_def
        mission_0_turning_def mission_0_before_turn_def)

lemma stop_fails_runs:
  "main_pass stop_fails 0 power_on = Some (Continue 0, unstopped_mission_0)"
  by (simp add: selector_defs mission_0_def run_defs gyro_turn_loop.simps wait_while_pressed.simps
        stop_fails_def power_on_def unstopped_mission_0_def
        mission_0_turning_def mission_0_before_turn_def)

subsection \<open>Choosing a mission\<close>

lemma select_next_range: "0 \<le> select_next env i \<and> select_next env i < 6"
  by (simp add: select_next_def length_MISSIONS)

lemma select_previous_range: "0 \<le> select_previous env i \<and> select_previous env i < 6"
  by (simp add: select_previous_def length_MISSIONS)

lemma select_previous_next: "0 \<le> i \<Longrightarrow> i < 6 \<Longrightarrow> select_previous env (select_next env i) = i"
  unfolding select_next_def select_previous_def length_MISSIONS by simp presburger

lemma select_next_funpow_range:
  "0 \<le> i \<Longrightarrow> i < 6 \<Longrightarrow> 0 \<le> (select_next env ^^ n) i \<and> (select_next env ^^ n) i < 6"
  by (cases n) (simp_all add: select_next_range)

lemma select_previous_next_funpow:
  assumes "0 \<le> i" "i < 6"
  shows "(select_previous env ^^ n) ((select_next env ^^ n) i) = i"
proof (induction n)
  case 0
  show ?case by simp
next
  case (Suc n)
  have "(select_previous env ^^ Suc n) ((select_next env ^^ Suc n) i)
        = (select_previous env ^^ n) (select_previous env (select_next env ((select_next env ^^ n) i)))"
    by (simp add: funpow_swap1)
  also have "\<dots> = (select_previous env ^^ n) ((select_next env ^^ n) i)"
    using select_next_funpow_range [OF assms, where env = env and n = n] by (simp add: select_previous_next)
  finally show ?case using Suc by simp
qed

lemma show_selection_valid:
  assumes "0 \<le> s" "s < 6"
  shows "show_selection env s w =
         Some (Done, w\<lparr>trace := trace w @ [print (''Selected: '' @ fst (MISSIONS env ! nat s)),
                                          light_on (MISSION_COLORS ! nat s)]\<rparr>)"
proof -
  have m: "py_index (MISSIONS env) s = Some (MISSIONS env ! nat s)"
    and c: "py_index MISSION_COLORS s = Some (MISSION_COLORS ! nat s)"
    using assms by (simp_all add: py_index_def length_MISSIONS length_MISSION_COLORS)
  show ?thesis
    by (cases "MISSIONS env ! nat s")
       (simp add: show_selection_def set_mission_light_def m c call_def emit_def)
qed

lemma on_press_Done:
  assumes "0 \<le> s" "s < 6" and run: "on_press env b bs s w = Some (r, w')"
  shows "r = Done"
proof (cases "b \<in> bs")
  case True
  with run have "\<exists>w1. wait_while_pressed env b w1 = Some (r, w')"
    by (auto simp: on_press_def show_selection_valid [OF assms(1,2)] split: option.splits outcome.splits)
  then obtain w1 where "wait_while_pressed env b w1 = Some (r, w')" ..
  from wait_while_pressed_quiet [OF this] show ?thesis by simp
next
  case False
  with run show ?thesis by (simp add: on_press_def)
qed

lemma main_pass_selecting:
  assumes run: "main_pass env selected w = Some (p, w')"
    and c: "CENTER \<notin> pressed env (length (trace w))"
    and b: "BLUETOOTH \<notin> pressed env (Suc (length (trace w)))"
    and sel: "0 \<le> selected" "selected < 6"
  shows "p = Continue
           (if LEFT \<in> pressed env (Suc (length (trace w)))
            then select_previous env
                   (if RIGHT \<in> pressed env (Suc (length (trace w))) then select_next env selected else selected)
            else (if RIGHT \<in> pressed env (Suc (length (trace w))) then select_next env selected else selected))"
proof -
  define w1 where "w1 = emit (buttons_pressed (pressed env (length (trace w)))) w"
  define bs where "bs = pressed env (length (trace w1))"
  define w2 where "w2 = emit (buttons_pressed bs) w1"
  define s1 where "s1 = (if RIGHT \<in> bs then select_next env selected else selected)"
  define s2 where "s2 = (if LEFT \<in> bs then select_previous env s1 else s1)"
  have chk: "emergency_stop_check env w = Some (Done, w1)"
    using c by (simp add: emergency_stop_check_Done w1_def)
  have bs: "bs = pressed env (Suc (length (trace w)))" by (simp add: bs_def w1_def)
  have nb: "BLUETOOTH \<notin> bs" using b by (simp add: bs)
  note run' = run [unfolded main_pass_def chk option.case prod.case outcome.case
      hub_buttons_pressed_def Let_def, folded bs_def, folded w2_def, folded s1_def, folded s2_def]
  from run' nb have body: "(case on_press env RIGHT bs s1 w2 of
                       None \<Rightarrow> None
                     | Some (Raised x, w3) \<Rightarrow> Some (Propagated x, w3)
                     | Some (Done, w3) \<Rightarrow>
                         (case on_press env LEFT bs s2 w3 of
                            None \<Rightarrow> None
                          | Some (Raised x, w4) \<Rightarrow> Some (Propagated x, w4)
                          | Some (Done, w4) \<Rightarrow> Some (Continue s2, emit (wait POLL_MS) w4))) = Some (p, w')"
    by simp
  have r1: "0 \<le> s1" "s1 < 6" using sel select_next_range [of env selected] by (auto simp: s1_def)
  have r2: "0 \<le> s2" "s2 < 6" using r1 select_previous_range [of env s1] by (auto simp: s2_def)
  from body obtain r3 w3 where 3: "on_press env RIGHT bs s1 w2 = Some (r3, w3)"
    by (auto split: option.splits)
  from on_press_Done [OF r1 3] have d3: "r3 = Done" .
  with body 3 obtain r4 w4 where 4: "on_press env LEFT bs s2 w3 = Some (r4, w4)"
    by (auto split: option.splits)
  from on_press_Done [OF r2 4] have d4: "r4 = Done" .
  from body 3 4 d3 d4 have "p = Continue s2" by simp
  then show ?thesis by (simp add: s2_def s1_def bs)
qed

subsection \<open>A failing statement\<close>

lemma block_append:
  "block (ps @ qs) w =
     (case block ps w of
        None \<Rightarrow> None
      | Some (Raised x, w1) \<Rightarrow> Some (Raised x, w1)
      | Some (Done, w1) \<Rightarrow> block qs w1)"
  by (induction ps arbitrary: w) (auto split: option.splits outcome.splits)

lemma block_fails_at:
  assumes k: "k < length steps"
    and before: "block (take k steps) w = Some (Done, wk)"
    and fails: "(steps ! k) wk = Some (Raised x, w1)"
  shows "block steps w = Some (Raised x, w1)"
proof -
  have "steps = take k steps @ steps ! k # drop (Suc k) steps"
    using k by (simp add: id_take_nth_drop)
  then have "block steps w = block (take k steps @ steps ! k # drop (Suc k) steps) w" by simp
  also have "\<dots> = Some (Raised x, w1)"
    unfolding block_append by (simp add: before fails)
  finally show ?thesis .
qed

lemma py_index_valid:
  "0 \<le> i \<Longrightarrow> i < int (length xs) \<Longrightarrow> py_index xs i = Some (xs ! nat i)"
  by (simp add: py_index_def)

lemma launch_returns_Done:
  assumes sel: "0 \<le> selected" "selected < 6"
    and run: "launch env name fn selected w = Some (r, w')"
  shows "r = Done"
proof -
  obtain name' fn' where m: "py_index (MISSIONS env) selected = Some (name', fn')"
    using py_index_valid [of selected "MISSIONS env"] sel
    by (cases "MISSIONS env ! nat selected") (simp add: length_MISSIONS)
  have c: "py_index MISSION_COLORS selected = Some (MISSION_COLORS ! nat selected)"
    using sel by (simp add: py_index_valid length_MISSION_COLORS)
  from run [unfolded launch_unfold [OF m c]]
  obtain w5 where "wait_while_pressed env BLUETOOTH w5 = Some (r, w')"
    by (auto split: option.splits outcome.splits)
  from wait_while_pressed_quiet [OF this] show ?thesis by simp
qed

lemma mission_3_block: "mission_3 env = block (mission_3_statements env)"
  by (simp add: mission_3_def mission_3_statements_def)

lemma main_pass_start:
  assumes run: "main_pass env selected w = Some (p, w')"
    and c: "CENTER \<notin> pressed env (length (trace w))"
    and b: "BLUETOOTH \<in> pressed env (Suc (length (trace w)))"
    and sel: "0 \<le> selected" "selected < 6"
  shows "p = Continue selected"
proof -
  define w1 where "w1 = emit (buttons_pressed (pressed env (length (trace w)))) w"
  define bs where "bs = pressed env (length (trace w1))"
  define w2 where "w2 = emit (buttons_pressed bs) w1"
  have chk: "emergency_stop_check env w = Some (Done, w1)"
    using c by (simp add: emergency_stop_check_Done w1_def)
  have b': "BLUETOOTH \<in> bs" using b by (simp add: bs_def w1_def)
  note run' = run [unfolded main_pass_def chk option.case prod.case outcome.case
      hub_buttons_pressed_def Let_def, folded bs_def, folded w2_def]
  from run' b' obtain r where ss: "start_selected env selected w2 = Some (r, w')"
    and pr: "p = (case r of Done \<Rightarrow> Continue selected | Raised x \<Rightarrow> Propagated x)"
    by (auto split: option.splits outcome.splits)
  have "py_index (MISSIONS env) selected = Some (MISSIONS env ! nat selected)"
    using sel by (simp add: py_index_valid length_MISSIONS)
  with ss have "launch env (fst (MISSIONS env ! nat selected)) (snd (MISSIONS env ! nat selected)) selected w2 = Some (r, w')"
    by (simp add: start_selected_def split: prod.splits)
  with sel have "r = Done" by (rule launch_returns_Done)
  with pr show ?thesis by simp
qed

subsection \<open>An emergency stop inside a mission\<close>

lemma mission_0_block: "mission_0 env = block (mission_0_statements env)"
  by (simp add: mission_0_def mission_0_statements_def)

lemma all_stopped_emergency_stopped: "all_stopped (trace (emergency_stopped env w))"
  using all_stopped_append [where a = "trace w @ [buttons_pressed (pressed env (length (trace w)))]"
      and b = "[speaker_beep 200 300]"]
  by (simp add: emergency_stopped_def)

lemma launch_aborted:
  assumes sel: "0 \<le> selected" "selected < 6"
    and i: "i < length steps"
    and before: "block (take i steps) (started name v) = Some (Done, u)"
    and turn: "steps ! i = gyro_turn env t slow axis"
    and seen: "abort_seen_in_pass env t (length (trace u) + 2) k"
  shows "block steps (started name v) =
           Some (Raised (RuntimeError ''Emergency stop''),
                 emergency_stopped env (turn_at_pass env t slow axis u k))" (is "_ = Some (_, ?E)")
    and "launch env name (block steps) selected v =
           wait_while_pressed env BLUETOOTH
             (failure_shown env selected (RuntimeError ''Emergency stop'')
                (emergency_stopped env (turn_at_pass env t slow axis u k)))"
    and "launch env name (block steps) selected v = Some (r, v') \<Longrightarrow>
           r = Done
           \<and> take 2 (new_events (emergency_stopped env (turn_at_pass env t slow axis u k)) v')
               = [print ''Error: Emergency stop'', speaker_beep 200 500]
           \<and> filter actuator_command
                (new_events (emergency_stopped env (turn_at_pass env t slow axis u k)) v') = []
           \<and> speaker_beep 600 150
                \<notin> set (new_events (emergency_stopped env (turn_at_pass env t slow axis u k)) v')
           \<and> all_stopped (trace v')"
proof -
  have g: "(steps ! i) u = Some (Raised (RuntimeError ''Emergency stop''), ?E)"
    unfolding turn using seen by (rule gyro_turn_abort)
  show f: "block steps (started name v) = Some (Raised (RuntimeError ''Emergency stop''), ?E)"
    using i before g by (rule block_fails_at)
  have m: "py_index (MISSIONS env) selected = Some (fst (MISSIONS env ! nat selected), snd (MISSIONS env ! nat selected))"
    using sel by (simp add: py_index_valid length_MISSIONS)
  have c: "py_index MISSION_COLORS selected = Some (MISSION_COLORS ! nat selected)"
    using sel by (simp add: py_index_valid length_MISSION_COLORS)
  show l: "launch env name (block steps) selected v =
           wait_while_pressed env BLUETOOTH (failure_shown env selected (RuntimeError ''Emergency stop'') ?E)"
    unfolding launch_unfold [OF m c] started_def [symmetric] f
    by (simp add: failure_shown_def shown_again_def)
  assume run: "launch env name (block steps) selected v = Some (r, v')"
  define F where "F = failure_shown env selected (RuntimeError ''Emergency stop'') ?E"
  from run l have ww: "wait_while_pressed env BLUETOOTH F = Some (r, v')" by (simp add: F_def)
  from wait_while_pressed_quiet [OF ww] obtain q where r: "r = Done"
    and q: "trace v' = trace F @ q" "\<forall>e \<in> set q. quiet e"
    by (auto simp: adds_def)
  define tail where "tail = [print ''Error: Emergency stop'', speaker_beep 200 500,
                            light_on (MISSION_COLORS ! nat selected),
                            print (''Selected: '' @ fst (MISSIONS env ! nat selected)),
                            light_on (MISSION_COLORS ! nat selected)] @ q"
  have tF: "trace v' = trace ?E @ tail"
    by (simp add: q F_def failure_shown_def tail_def)
  then have ne: "new_events ?E v' = tail" by (simp add: new_events_def)
  have tq: "\<forall>e \<in> set tail. \<not> actuator_command e" "speaker_beep 600 150 \<notin> set tail"
    using q(2) by (auto simp: tail_def dest: quiet_not_actuator quiet_not_beep)
  let ?w = "turn_at_pass env t slow axis u k"
  have "trace v' = (trace ?w @ [buttons_pressed (pressed env (length (trace ?w)))]) @ stop_sequence
                     @ (speaker_beep 200 300 # tail)"
    by (simp add: tF emergency_stopped_def)
  moreover have "\<forall>e \<in> set (speaker_beep 200 300 # tail). \<not> actuator_command e"
    using tq by simp
  ultimately have "all_stopped (trace v')" using all_stopped_append by metis
  moreover have "take 2 tail = [print ''Error: Emergency stop'', speaker_beep 200 500]"
    by (simp add: tail_def)
  ultimately show "r = Done
           \<and> take 2 (new_events ?E v') = [print ''Error: Emergency stop'', speaker_beep 200 500]
           \<and> filter actuator_command (new_events ?E v') = []
           \<and> speaker_beep 600 150 \<notin> set (new_events ?E v')
           \<and> all_stopped (trace v')"
    using r tq unfolding ne by (simp add: filter_empty_conv)
qed

section \<open>The claims\<close>

text \<open>
  \<^bold>\<open>C1\<close>, as the code has it. The abort input is observed where \<open>emergency_stop_check\<close>
  polls the buttons and sees CENTER: at the top of a pass of the loop of \<open>main\<close>, or at the
  top of a pass of the loop of \<open>gyro_turn\<close>. Provided none of the five stop calls of that
  check raises, the check commands \<open>robot.stop()\<close> and the stops of the four motors, beeps
  and raises \<open>RuntimeError("Emergency stop")\<close>: this is the world \<open>emergency_stopped\<close>, in
  which the last five actuator commands are the five stops. The loop of \<open>gyro_turn\<close> and a
  pass of \<open>main\<close> end there with that exception, and so does \<open>gyro_turn\<close> when the abort
  is observed in pass \<open>k\<close> of its loop; the first pass of a turn called in \<open>u\<close> starts two
  events after \<open>u\<close>, behind the heading reset and \<open>wait(150)\<close>, and a pass that goes round
  again is five events. In a mission, a block of statements of which the first \<open>i\<close> returned
  and statement \<open>i\<close> is such a turn, no later statement is run: the mission raises in that
  world, the launcher reports \<open>Error: Emergency stop\<close> with \<open>beep(200, 500)\<close>, shows the
  selection again, and what is left of the pass is the wait for the Bluetooth button to be
  released. When the launcher returns, it has returned normally, no command went to an
  actuator after the emergency stop, the completion beep \<open>beep(600, 150)\<close> did not sound,
  and the last five actuator commands are still the five stops.
\<close>

theorem emergency_stop_ends_the_run:
  "(CENTER \<in> pressed env (length (trace w)) \<and> stops_succeed env (length (trace w)) \<longrightarrow>
      emergency_stop_check env w =
        Some (Raised (RuntimeError ''Emergency stop''), emergency_stopped env w)
      \<and> gyro_turn_loop env t sp ts w =
          Some (Raised (RuntimeError ''Emergency stop''), emergency_stopped env w)
      \<and> main_pass env selected w =
          Some (Propagated (RuntimeError ''Emergency stop''), emergency_stopped env w)
      \<and> all_stopped (trace (emergency_stopped env w)))
   \<and> (abort_seen_in_pass env t (length (trace u) + 2) k \<longrightarrow>
        gyro_turn env t slow axis u =
          Some (Raised (RuntimeError ''Emergency stop''),
                emergency_stopped env (turn_at_pass env t slow axis u k)))
   \<and> (0 \<le> selected \<and> selected < 6 \<and> i < length steps
       \<and> block (take i steps) (started name v) = Some (Done, u)
       \<and> steps ! i = gyro_turn env t slow axis
       \<and> abort_seen_in_pass env t (length (trace u) + 2) k \<longrightarrow>
        block steps (started name v) =
          Some (Raised (RuntimeError ''Emergency stop''),
                emergency_stopped env (turn_at_pass env t slow axis u k))
        \<and> launch env name (block steps) selected v =
            wait_while_pressed env BLUETOOTH
              (failure_shown env selected (RuntimeError ''Emergency stop'')
                 (emergency_stopped env (turn_at_pass env t slow axis u k)))
        \<and> (launch env name (block steps) selected v = Some (r, v') \<longrightarrow>
             r = Done
             \<and> take 2 (new_events (emergency_stopped env (turn_at_pass env t slow axis u k)) v')
                 = [print ''Error: Emergency stop'', speaker_beep 200 500]
             \<and> filter actuator_command
                  (new_events (emergency_stopped env (turn_at_pass env t slow axis u k)) v') = []
             \<and> speaker_beep 600 150
                  \<notin> set (new_events (emergency_stopped env (turn_at_pass env t slow axis u k)) v')
             \<and> all_stopped (trace v')))"
proof (intro conjI impI)
  assume a: "CENTER \<in> pressed env (length (trace w)) \<and> stops_succeed env (length (trace w))"
  then show c: "emergency_stop_check env w =
        Some (Raised (RuntimeError ''Emergency stop''), emergency_stopped env w)"
    by (simp add: emergency_stop_check_stops)
  then show "gyro_turn_loop env t sp ts w =
          Some (Raised (RuntimeError ''Emergency stop''), emergency_stopped env w)"
    by (rule gyro_turn_loop_check_raises)
  from c show "main_pass env selected w =
          Some (Propagated (RuntimeError ''Emergency stop''), emergency_stopped env w)"
    by (simp add: main_pass_def)
  show "all_stopped (trace (emergency_stopped env w))"
    by (rule all_stopped_emergency_stopped)
next
  assume "abort_seen_in_pass env t (length (trace u) + 2) k"
  then show "gyro_turn env t slow axis u =
          Some (Raised (RuntimeError ''Emergency stop''),
                emergency_stopped env (turn_at_pass env t slow axis u k))"
    by (rule gyro_turn_abort)
next
  assume a: "0 \<le> selected \<and> selected < 6 \<and> i < length steps
       \<and> block (take i steps) (started name v) = Some (Done, u)
       \<and> steps ! i = gyro_turn env t slow axis
       \<and> abort_seen_in_pass env t (length (trace u) + 2) k"
  then have sel: "0 \<le> selected" "selected < 6" and i: "i < length steps"
    and before: "block (take i steps) (started name v) = Some (Done, u)"
    and turn: "steps ! i = gyro_turn env t slow axis"
    and seen: "abort_seen_in_pass env t (length (trace u) + 2) k"
    by simp_all
  note l = launch_aborted [OF sel i before turn seen]
  show "block steps (started name v) =
          Some (Raised (RuntimeError ''Emergency stop''),
                emergency_stopped env (turn_at_pass env t slow axis u k))"
    by (rule l(1))
  show "launch env name (block steps) selected v =
            wait_while_pressed env BLUETOOTH
              (failure_shown env selected (RuntimeError ''Emergency stop'')
                 (emergency_stopped env (turn_at_pass env t slow axis u k)))"
    by (rule l(2))
  assume run: "launch env name (block steps) selected v = Some (r, v')"
  note e = l(3) [OF run]
  from e show "r = Done" by blast
  from e show "take 2 (new_events (emergency_stopped env (turn_at_pass env t slow axis u k)) v')
                 = [print ''Error: Emergency stop'', speaker_beep 200 500]" by blast
  from e show "filter actuator_command
                  (new_events (emergency_stopped env (turn_at_pass env t slow axis u k)) v') = []" by blast
  from e show "speaker_beep 600 150
                  \<notin> set (new_events (emergency_stopped env (turn_at_pass env t slow axis u k)) v')" by blast
  from e show "all_stopped (trace v')" by blast
qed

text \<open>
  Where a stop call raises, the claim fails. In mission 0 the second pass of the first turn
  sees CENTER (event 20) and \<open>robot.stop()\<close> raises: the check is left by that exception,
  no motor is told to stop, the launcher reports the error, and the pass ends with the two
  motors still under the \<open>run\<close> commands of the first pass of the turn.
\<close>

theorem emergency_stop_fails_counterexample:
  "CENTER \<in> pressed stop_fails 20
   \<and> main_pass stop_fails 0 power_on = Some (Continue 0, unstopped_mission_0)
   \<and> drop 17 (trace unstopped_mission_0) =
       [motor_run left_motor (- 100), motor_run right_motor 100, wait 10,
        buttons_pressed {CENTER},
        robot_stop, raised (OSError ''[Errno 19] ENODEV''),
        print ''Error: [Errno 19] ENODEV'', speaker_beep 200 500,
        light_on RED, print ''Selected: Mission 0'', light_on RED,
        buttons_pressed {}]
   \<and> \<not> all_stopped (trace unstopped_mission_0)"
proof -
  have "CENTER \<in> pressed stop_fails 20" by (simp add: stop_fails_def)
  moreover have "drop 17 (trace unstopped_mission_0) =
       [motor_run left_motor (- 100), motor_run right_motor 100, wait 10,
        buttons_pressed {CENTER},
        robot_stop, raised (OSError ''[Errno 19] ENODEV''),
        print ''Error: [Errno 19] ENODEV'', speaker_beep 200 500,
        light_on RED, print ''Selected: Mission 0'', light_on RED,
        buttons_pressed {}]"
    by (simp add: unstopped_mission_0_def mission_0_turning_def mission_0_before_turn_def)
  moreover have "\<not> all_stopped (trace unstopped_mission_0)"
    by (simp add: all_stopped_def unstopped_mission_0_def mission_0_turning_def
          mission_0_before_turn_def stop_sequence_def)
  ultimately show ?thesis using stop_fails_runs by simp
qed

theorem emergency_stop_ends_the_run_witness:
  "CENTER \<in> pressed center_held (length (trace power_on))
   \<and> stops_succeed center_held (length (trace power_on))
   \<and> emergency_stop_check center_held power_on =
        Some (Raised (RuntimeError ''Emergency stop''),
              power_on\<lparr>trace := buttons_pressed {CENTER} # stop_sequence @ [speaker_beep 200 300]\<rparr>)
   \<and> gyro_turn_loop center_held 90 400 1 power_on =
        Some (Raised (RuntimeError ''Emergency stop''),
              power_on\<lparr>trace := buttons_pressed {CENTER} # stop_sequence @ [speaker_beep 200 300]\<rparr>)
   \<and> main_pass center_held 0 power_on =
        Some (Propagated (RuntimeError ''Emergency stop''),
              power_on\<lparr>trace := buttons_pressed {CENTER} # stop_sequence @ [speaker_beep 200 300]\<rparr>)
   \<and> all_stopped (buttons_pressed {CENTER} # stop_sequence @ [speaker_beep 200 300])
   \<and> abort_seen_in_pass abort_in_first_turn 10 (length (trace mission_0_before_turn) + 2) 1
   \<and> gyro_turn abort_in_first_turn 10 True True mission_0_before_turn =
        Some (Raised (RuntimeError ''Emergency stop''), mission_0_stopped)
   \<and> (0 :: int) \<le> 0 \<and> (0 :: int) < 6
   \<and> 3 < length (mission_0_statements abort_in_first_turn)
   \<and> block (take 3 (mission_0_statements abort_in_first_turn)) (started ''Mission 0'' start_polled)
        = Some (Done, mission_0_before_turn)
   \<and> mission_0_statements abort_in_first_turn ! 3 = gyro_turn abort_in_first_turn 10 True True
   \<and> block (mission_0_statements abort_in_first_turn) (started ''Mission 0'' start_polled)
        = Some (Raised (RuntimeError ''Emergency stop''), mission_0_stopped)
   \<and> launch abort_in_first_turn ''Mission 0'' (block (mission_0_statements abort_in_first_turn)) 0
        start_polled = Some (Done, aborted_mission_0)
   \<and> take 2 (new_events mission_0_stopped aborted_mission_0)
        = [print ''Error: Emergency stop'', speaker_beep 200 500]
   \<and> filter actuator_command (new_events mission_0_stopped aborted_mission_0) = []
   \<and> speaker_beep 600 150 \<notin> set (new_events mission_0_stopped aborted_mission_0)
   \<and> all_stopped (trace aborted_mission_0)
   \<and> start_selected abort_in_first_turn 0 start_polled = Some (Done, aborted_mission_0)
   \<and> main_pass abort_in_first_turn 0 power_on = Some (Continue 0, aborted_mission_0)"
proof -
  note t = emergency_stop_ends_the_run
  have c: "CENTER \<in> pressed center_held (length (trace power_on))"
    and s: "stops_succeed center_held (length (trace power_on))"
    by (simp_all add: center_held_def stops_succeed_def)
  have es: "emergency_stopped center_held power_on
            = power_on\<lparr>trace := buttons_pressed {CENTER} # stop_sequence @ [speaker_beep 200 300]\<rparr>"
    by (simp add: emergency_stopped_def center_held_def power_on_def)
  from t [where env = center_held and w = power_on and selected = 0 and t = 90 and sp = 400
      and ts = 1] c s
  have e: "emergency_stop_check center_held power_on =
        Some (Raised (RuntimeError ''Emergency stop''),
              power_on\<lparr>trace := buttons_pressed {CENTER} # stop_sequence @ [speaker_beep 200 300]\<rparr>)"
    and gl: "gyro_turn_loop center_held 90 400 1 power_on =
        Some (Raised (RuntimeError ''Emergency stop''),
              power_on\<lparr>trace := buttons_pressed {CENTER} # stop_sequence @ [speaker_beep 200 300]\<rparr>)"
    and al: "all_stopped (trace (power_on\<lparr>trace := buttons_pressed {CENTER} # stop_sequence
                                                    @ [speaker_beep 200 300]\<rparr>))"
    and p: "main_pass center_held 0 power_on =
        Some (Propagated (RuntimeError ''Emergency stop''),
              power_on\<lparr>trace := buttons_pressed {CENTER} # stop_sequence @ [speaker_beep 200 300]\<rparr>)"
    unfolding es by blast+
  have seen: "abort_seen_in_pass abort_in_first_turn 10 (length (trace mission_0_before_turn) + 2) 1"
    by (simp add: abort_seen_in_pass_def pass_goes_on_def pass_leaves_def stops_succeed_def
          normalize_heading_def abort_in_first_turn_def mission_0_before_turn_def)
  have st: "emergency_stopped abort_in_first_turn
              (turn_at_pass abort_in_first_turn 10 True True mission_0_before_turn 1)
            = mission_0_stopped"
    by (simp add: emergency_stopped_def turn_at_pass_def pass_done_def abort_in_first_turn_def
          mission_0_stopped_def mission_0_turning_def mission_0_before_turn_def stop_sequence_def)
  have k: "3 < length (mission_0_statements abort_in_first_turn)"
    by (simp add: mission_0_statements_def)
  have t3: "take 3 (mission_0_statements abort_in_first_turn)
            = [setup_drive abort_in_first_turn, call (print ''Mission 0''),
               drive_cm abort_in_first_turn 15 30 50]"
    by (simp add: mission_0_statements_def numeral_3_eq_3)
  have b: "block (take 3 (mission_0_statements abort_in_first_turn)) (started ''Mission 0'' start_polled)
        = Some (Done, mission_0_before_turn)"
    unfolding t3
    by (simp add: setup_drive_def beep_ok_def drive_cm_def run_defs started_def start_polled_def
          power_on_def abort_in_first_turn_def mission_0_before_turn_def)
  have n: "mission_0_statements abort_in_first_turn ! 3 = gyro_turn abort_in_first_turn 10 True True"
    by (simp add: mission_0_statements_def numeral_3_eq_3)
  from t [where env = abort_in_first_turn and t = 10 and u = mission_0_before_turn and k = 1
      and slow = True and axis = True] seen
  have g: "gyro_turn abort_in_first_turn 10 True True mission_0_before_turn =
        Some (Raised (RuntimeError ''Emergency stop''), mission_0_stopped)"
    unfolding st by blast
  have ww: "wait_while_pressed abort_in_first_turn BLUETOOTH
              (failure_shown abort_in_first_turn 0 (RuntimeError ''Emergency stop'') mission_0_stopped)
            = Some (Done, aborted_mission_0)"
    by (simp add: wait_while_pressed.simps hub_buttons_pressed_def emit_def failure_shown_def
          MISSIONS_def MISSION_COLORS_def abort_in_first_turn_def aborted_mission_0_def
          mission_0_stopped_def mission_0_turning_def mission_0_before_turn_def)
  note m = t [where env = abort_in_first_turn and t = 10 and u = mission_0_before_turn and k = 1
      and slow = True and axis = True and selected = 0 and i = 3
      and steps = "mission_0_statements abort_in_first_turn" and name = "''Mission 0''"
      and v = start_polled and r = Done and v' = aborted_mission_0,
      unfolded st ww]
  from m seen k b n
  have f: "block (mission_0_statements abort_in_first_turn) (started ''Mission 0'' start_polled)
        = Some (Raised (RuntimeError ''Emergency stop''), mission_0_stopped)"
    and l: "launch abort_in_first_turn ''Mission 0'' (block (mission_0_statements abort_in_first_turn)) 0
        start_polled = Some (Done, aborted_mission_0)"
    by simp_all
  from m seen k b n l
  have r: "take 2 (new_events mission_0_stopped aborted_mission_0)
        = [print ''Error: Emergency stop'', speaker_beep 200 500]
   \<and> filter actuator_command (new_events mission_0_stopped aborted_mission_0) = []
   \<and> speaker_beep 600 150 \<notin> set (new_events mission_0_stopped aborted_mission_0)
   \<and> all_stopped (trace aborted_mission_0)"
    by simp
  have ss: "start_selected abort_in_first_turn 0 start_polled
            = launch abort_in_first_turn ''Mission 0'' (block (mission_0_statements abort_in_first_turn)) 0
                start_polled"
    by (simp add: start_selected_def py_index_def MISSIONS_def mission_0_block)
  from al have al': "all_stopped (buttons_pressed {CENTER} # stop_sequence @ [speaker_beep 200 300])"
    by simp
  show ?thesis using c s e gl p al' seen g k b n f l r ss aborted_mission_0_runs by simp
qed

text \<open>
  \<^bold>\<open>C2\<close>. The claim is that a turn that returns has ended within the settle tolerance of
  its target; the repository's test asserts it with \<open>abs(imu.heading() - 45) <= 2.0\<close> after
  \<open>gyro_turn(45, settle_tol=2, settle_timeout_ms=1000)\<close>. The \<open>gyro_turn\<close> of the source
  takes no tolerance and leaves its loop at the first sample whose magnitude has reached that
  of the target. On the robot of the test double, which turns 1.6 degrees per pass,
  \<open>gyro_turn(45)\<close> returns with the last sample \<open>-46.4\<close>: the turn makes the heading fall,
  and the final heading is 91.4 degrees from the target.
\<close>

theorem gyro_turn_misses_tolerance:
  "last_sample (gyro_turn spinning_left 45 False True power_on) = Some (- (232 / 5))
   \<and> \<not> \<bar>- (232 / 5) - 45\<bar> \<le> (2 :: real)"
  by (simp add: run_defs gyro_turn_loop.simps spinning_left_def power_on_def last_sample_def)

text \<open>
  \<^bold>\<open>C3\<close>. The claim is that the feedback loop of the turn is left within
  \<open>settle_timeout_ms\<close>; the repository's test passes \<open>settle_timeout_ms=1000\<close> and installs
  a \<open>StopWatch\<close>. The \<open>gyro_turn\<close> of the source takes no time budget and reads no clock:
  its loop is \<open>while True\<close>, left only by the emergency stop or by a sample that has reached
  the target. On a robot whose heading stays 0, with no button pressed, \<open>gyro_turn(90)\<close>
  never returns.
\<close>

theorem gyro_turn_never_times_out:
  "gyro_turn stalled 90 False True power_on = None"
proof -
  have nf: "\<forall>n. fault stalled n = None" by (simp add: stalled_def)
  have never: "\<not> pass_leaves stalled 90 n" for n
    by (simp add: pass_leaves_def stalled_def normalize_heading_def)
  have "gyro_turn_loop stalled 90 sp ts w = None" for sp ts w
  proof (cases "gyro_turn_loop stalled 90 sp ts w")
    case None
    then show ?thesis .
  next
    case (Some y)
    from gyro_turn_loop_returns_only_if [OF nf Some] never show ?thesis by blast
  qed
  then show ?thesis
    by (simp add: gyro_turn_def call_def)
qed

text \<open>
  \<^bold>\<open>C4\<close>. The claim is that the first motion command of a turn is one drive-base turn of
  the bulk of the angle; the repository's test asserts \<open>robot.turn_calls[0]\<close> to be 87 at
  \<open>turn_rate\<close> 140 for a target of 90, and a final heading within 2 degrees of it. The
  \<open>gyro_turn\<close> of the source never calls the drive base. On the robot of the test double,
  \<open>gyro_turn(90)\<close> returns; the first motion command of the run is \<open>left_motor.run(-400)\<close>,
  the run holds no \<open>robot.turn\<close> and no \<open>robot.straight\<close>, and its last heading sample is
  \<open>-91.2\<close>.
\<close>

theorem gyro_turn_issues_no_bulk_turn:
  "(case gyro_turn spinning_left 90 False True power_on of
      Some (Done, w') \<Rightarrow>
        find motion_command (trace w') = Some (motor_run left_motor (- 400))
        \<and> filter drive_base_move (trace w') = []
        \<and> last (headings_sampled (trace w')) = - (456 / 5)
    | _ \<Rightarrow> False)"
  by (simp add: run_defs gyro_turn_loop.simps spinning_left_def power_on_def)

text \<open>
  \<^bold>\<open>C5\<close>. Let the selected mission be a block of statements of which the first \<open>k\<close>
  return and the one at position \<open>k\<close> raises \<open>x\<close>. Then the mission raises \<open>x\<close> in the
  world that statement left, whatever the statements after it are: none of them is run.
  The launcher catches the exception: it prints \<open>Error:\<close> with the message, beeps
  \<open>(200, 500)\<close>, shows the selection again and waits for the Bluetooth button to be
  released. Whatever the mission does, the launcher never raises, for a selection in range.
\<close>

theorem failing_step_is_caught:
  assumes sel: "0 \<le> selected" "selected < 6"
  shows "(k < length steps
          \<and> block (take k steps) (started name w) = Some (Done, wk)
          \<and> (steps ! k) wk = Some (Raised x, w1) \<longrightarrow>
            block steps (started name w) = Some (Raised x, w1)
            \<and> launch env name (block steps) selected w
                = wait_while_pressed env BLUETOOTH (failure_shown env selected x w1))
       \<and> (launch env name fn selected w = Some (r, w') \<longrightarrow> r = Done)
       \<and> (start_selected env selected w = Some (r, w') \<longrightarrow> r = Done)"
proof (intro conjI impI)
  assume a: "k < length steps
          \<and> block (take k steps) (started name w) = Some (Done, wk)
          \<and> (steps ! k) wk = Some (Raised x, w1)"
  then show f: "block steps (started name w) = Some (Raised x, w1)"
    by (auto intro: block_fails_at)
  have m: "py_index (MISSIONS env) selected = Some (fst (MISSIONS env ! nat selected), snd (MISSIONS env ! nat selected))"
    using sel by (simp add: py_index_valid length_MISSIONS)
  have c: "py_index MISSION_COLORS selected = Some (MISSION_COLORS ! nat selected)"
    using sel by (simp add: py_index_valid length_MISSION_COLORS)
  show "launch env name (block steps) selected w
                = wait_while_pressed env BLUETOOTH (failure_shown env selected x w1)"
    unfolding launch_unfold [OF m c] started_def [symmetric] f
    by (simp add: failure_shown_def shown_again_def)
next
  assume "launch env name fn selected w = Some (r, w')"
  with sel show "r = Done" by (rule launch_returns_Done)
next
  assume s: "start_selected env selected w = Some (r, w')"
  have "py_index (MISSIONS env) selected = Some (MISSIONS env ! nat selected)"
    using sel by (simp add: py_index_valid length_MISSIONS)
  with s have "launch env (fst (MISSIONS env ! nat selected)) (snd (MISSIONS env ! nat selected)) selected w = Some (r, w')"
    by (simp add: start_selected_def split: prod.splits)
  with sel show "r = Done" by (rule launch_returns_Done)
qed

theorem failing_step_is_caught_witness:
  "(0 :: int) \<le> 3 \<and> (3 :: int) < 6
   \<and> 2 < length (mission_3_statements drive_fails)
   \<and> block (take 2 (mission_3_statements drive_fails)) (started ''Mission 3'' start_polled)
        = Some (Done, mission_3_before_drive)
   \<and> (mission_3_statements drive_fails ! 2) mission_3_before_drive
        = Some (Raised (OSError ''[Errno 19] ENODEV''), mission_3_drive_failed)
   \<and> block (mission_3_statements drive_fails) (started ''Mission 3'' start_polled)
        = Some (Raised (OSError ''[Errno 19] ENODEV''), mission_3_drive_failed)
   \<and> launch drive_fails ''Mission 3'' (block (mission_3_statements drive_fails)) 3 start_polled
        = Some (Done, failed_mission_3)
   \<and> start_selected drive_fails 3 start_polled = Some (Done, failed_mission_3)"
proof -
  have k: "2 < length (mission_3_statements drive_fails)" by (simp add: mission_3_statements_def)
  have t2: "take 2 (mission_3_statements drive_fails)
            = [setup_drive drive_fails, call (print ''Mission 3'')]"
    by (simp add: mission_3_statements_def numeral_2_eq_2)
  have b: "block (take 2 (mission_3_statements drive_fails)) (started ''Mission 3'' start_polled)
        = Some (Done, mission_3_before_drive)"
    unfolding t2
    by (simp add: setup_drive_def beep_ok_def run_defs started_def start_polled_def power_on_def
          drive_fails_def mission_3_before_drive_def)
  have f: "(mission_3_statements drive_fails ! 2) mission_3_before_drive
        = Some (Raised (OSError ''[Errno 19] ENODEV''), mission_3_drive_failed)"
    by (simp add: mission_3_statements_def drive_cm_def run_defs drive_fails_def
          mission_3_before_drive_def mission_3_drive_failed_def)
  note t = failing_step_is_caught [of 3 2 "mission_3_statements drive_fails" "''Mission 3''" start_polled
      mission_3_before_drive "OSError ''[Errno 19] ENODEV''" mission_3_drive_failed drive_fails]
  from t k b f have c: "block (mission_3_statements drive_fails) (started ''Mission 3'' start_polled)
        = Some (Raised (OSError ''[Errno 19] ENODEV''), mission_3_drive_failed)"
    and l: "launch drive_fails ''Mission 3'' (block (mission_3_statements drive_fails)) 3 start_polled
        = wait_while_pressed drive_fails BLUETOOTH
            (failure_shown drive_fails 3 (OSError ''[Errno 19] ENODEV'') mission_3_drive_failed)"
    by simp_all
  have w: "wait_while_pressed drive_fails BLUETOOTH
            (failure_shown drive_fails 3 (OSError ''[Errno 19] ENODEV'') mission_3_drive_failed)
           = Some (Done, failed_mission_3)"
    by (simp add: wait_while_pressed.simps hub_buttons_pressed_def emit_def failure_shown_def
          MISSIONS_def MISSION_COLORS_def drive_fails_def mission_3_drive_failed_def
          mission_3_before_drive_def failed_mission_3_def)
  have s: "start_selected drive_fails 3 start_polled
           = launch drive_fails ''Mission 3'' (block (mission_3_statements drive_fails)) 3 start_polled"
    by (simp add: start_selected_def py_index_def MISSIONS_def mission_3_block)
  show ?thesis using k b f c l w s by simp
qed

text \<open>
  \<^bold>\<open>C6\<close>, as the code has it. CENTER does not set a signal that only a running mission
  reads: the loop of \<open>main\<close> makes its own emergency check at the top of every pass, outside
  \<open>try\<close>. A check of the selector that sees CENTER, as it does when the robot is idle,
  raises, and its exception leaves \<open>main\<close>: the program ends. When none of the five stop calls
  of that check raises, the motors have been stopped and the exception is
  \<open>RuntimeError("Emergency stop")\<close>. A pass whose own check does not see CENTER never leaves
  \<open>main\<close>, whatever happens in it, an emergency stop inside the mission included: it goes on
  with an index in range, and with the same index after a mission.
\<close>

theorem abort_ends_main_unless_in_mission:
  "(CENTER \<in> pressed env (length (trace w)) \<longrightarrow>
      (\<exists>x w'. emergency_stop_check env w = Some (Raised x, w')
               \<and> main_loop env selected w = Some (x, w'))
      \<and> (stops_succeed env (length (trace w)) \<longrightarrow>
            main_loop env selected w =
              Some (RuntimeError ''Emergency stop'', emergency_stopped env w)))
   \<and> (0 \<le> selected \<and> selected < 6 \<and> CENTER \<notin> pressed env (length (trace w))
       \<and> main_pass env selected w = Some (p, w') \<longrightarrow>
        (\<exists>s. p = Continue s \<and> 0 \<le> s \<and> s < 6)
        \<and> (BLUETOOTH \<in> pressed env (Suc (length (trace w))) \<longrightarrow> p = Continue selected))"
proof (intro conjI impI)
  assume c: "CENTER \<in> pressed env (length (trace w))"
  from emergency_stop_check_raises [OF c] obtain x w1
    where r: "emergency_stop_check env w = Some (Raised x, w1)" by blast
  then have "main_loop env selected w = Some (x, w1)"
    by (subst main_loop.simps) (simp add: main_pass_def)
  with r show "\<exists>x w'. emergency_stop_check env w = Some (Raised x, w')
               \<and> main_loop env selected w = Some (x, w')" by blast
  assume "stops_succeed env (length (trace w))"
  with c show "main_loop env selected w =
              Some (RuntimeError ''Emergency stop'', emergency_stopped env w)"
    by (subst main_loop.simps) (simp add: main_pass_def emergency_stop_check_stops)
next
  assume a: "0 \<le> selected \<and> selected < 6 \<and> CENTER \<notin> pressed env (length (trace w))
       \<and> main_pass env selected w = Some (p, w')"
  show "\<exists>s. p = Continue s \<and> 0 \<le> s \<and> s < 6"
  proof (cases "BLUETOOTH \<in> pressed env (Suc (length (trace w)))")
    case True
    with a main_pass_start [of env selected w p w'] show ?thesis by simp
  next
    case False
    from main_pass_selecting [OF _ _ False, of selected p w'] a
    show ?thesis
      using select_next_range [of env selected]
        select_previous_range [of env "select_next env selected"]
        select_previous_range [of env selected]
      by auto
  qed
next
  assume a: "0 \<le> selected \<and> selected < 6 \<and> CENTER \<notin> pressed env (length (trace w))
       \<and> main_pass env selected w = Some (p, w')"
    and b: "BLUETOOTH \<in> pressed env (Suc (length (trace w)))"
  with main_pass_start [of env selected w p w'] show "p = Continue selected" by simp
qed

text \<open>CENTER held while the program starts: \<open>main()\<close> returns, by the exception.\<close>

theorem abort_while_idle_counterexample:
  "main center_held power_on =
     Some (RuntimeError ''Emergency stop'',
           power_on\<lparr>trace := [print ''READY.'',
                               print (''LEFT/RIGHT = choose Mission 0'' @ [CHR 0xE2, CHR 0x80, CHR 0x93] @ ''5''),
                               print ''BLUETOOTH = START immediately'',
                               print ''Selected: Mission 0'', light_on RED,
                               buttons_pressed {CENTER}]
                              @ stop_sequence @ [speaker_beep 200 300]\<rparr>)"
  by (simp add: main_def main_loop.simps selector_defs run_defs center_held_def power_on_def
        stop_sequence_def)

theorem abort_ends_main_unless_in_mission_witness:
  "CENTER \<in> pressed center_held (length (trace power_on))
   \<and> stops_succeed center_held (length (trace power_on))
   \<and> emergency_stop_check center_held power_on =
        Some (Raised (RuntimeError ''Emergency stop''),
              power_on\<lparr>trace := buttons_pressed {CENTER} # stop_sequence @ [speaker_beep 200 300]\<rparr>)
   \<and> main_loop center_held 0 power_on =
        Some (RuntimeError ''Emergency stop'',
              power_on\<lparr>trace := buttons_pressed {CENTER} # stop_sequence @ [speaker_beep 200 300]\<rparr>)
   \<and> CENTER \<in> pressed idle_stop_fails (length (trace power_on))
   \<and> emergency_stop_check idle_stop_fails power_on =
        Some (Raised (OSError ''[Errno 19] ENODEV''),
              power_on\<lparr>trace := [buttons_pressed {CENTER}, robot_stop,
                                  raised (OSError ''[Errno 19] ENODEV'')]\<rparr>)
   \<and> main_loop idle_stop_fails 0 power_on =
        Some (OSError ''[Errno 19] ENODEV'',
              power_on\<lparr>trace := [buttons_pressed {CENTER}, robot_stop,
                                  raised (OSError ''[Errno 19] ENODEV'')]\<rparr>)
   \<and> (0 :: int) \<le> 0 \<and> (0 :: int) < 6
   \<and> CENTER \<notin> pressed abort_in_first_turn (length (trace power_on))
   \<and> BLUETOOTH \<in> pressed abort_in_first_turn (Suc (length (trace power_on)))
   \<and> main_pass abort_in_first_turn 0 power_on = Some (Continue 0, aborted_mission_0)"
proof -
  note t = abort_ends_main_unless_in_mission
  have c: "CENTER \<in> pressed center_held (length (trace power_on))"
    and s: "stops_succeed center_held (length (trace power_on))"
    by (simp_all add: center_held_def stops_succeed_def)
  have es: "emergency_stopped center_held power_on
            = power_on\<lparr>trace := buttons_pressed {CENTER} # stop_sequence @ [speaker_beep 200 300]\<rparr>"
    by (simp add: emergency_stopped_def center_held_def power_on_def)
  from t [where env = center_held and w = power_on and selected = 0] c s
  have m: "main_loop center_held 0 power_on =
        Some (RuntimeError ''Emergency stop'',
              power_on\<lparr>trace := buttons_pressed {CENTER} # stop_sequence @ [speaker_beep 200 300]\<rparr>)"
    unfolding es by blast
  have e: "emergency_stop_check center_held power_on =
        Some (Raised (RuntimeError ''Emergency stop''),
              power_on\<lparr>trace := buttons_pressed {CENTER} # stop_sequence @ [speaker_beep 200 300]\<rparr>)"
    by (simp add: run_defs center_held_def power_on_def stop_sequence_def)
  have c2: "CENTER \<in> pressed idle_stop_fails (length (trace power_on))"
    by (simp add: idle_stop_fails_def)
  have e2: "emergency_stop_check idle_stop_fails power_on =
        Some (Raised (OSError ''[Errno 19] ENODEV''),
              power_on\<lparr>trace := [buttons_pressed {CENTER}, robot_stop,
                                  raised (OSError ''[Errno 19] ENODEV'')]\<rparr>)"
    by (simp add: run_defs idle_stop_fails_def power_on_def)
  from t [where env = idle_stop_fails and w = power_on and selected = 0] c2
  have m2: "main_loop idle_stop_fails 0 power_on =
        Some (OSError ''[Errno 19] ENODEV'',
              power_on\<lparr>trace := [buttons_pressed {CENTER}, robot_stop,
                                  raised (OSError ''[Errno 19] ENODEV'')]\<rparr>)"
    unfolding e2 by auto
  have p: "CENTER \<notin> pressed abort_in_first_turn (length (trace power_on))"
    "BLUETOOTH \<in> pressed abort_in_first_turn (Suc (length (trace power_on)))"
    by (simp_all add: abort_in_first_turn_def power_on_def)
  show ?thesis using c s e m c2 e2 m2 p aborted_mission_0_runs by simp
qed

text \<open>
  \<^bold>\<open>C7\<close>. The claim is that every reading outside \<open>(-180, 180]\<close> is brought into it
  before the comparison. The source only subtracts 360 from a reading above 180 (its comment
  says it normalizes to \<open>[-180, 180]\<close>): a reading of \<open>-200\<close> is compared as \<open>-200\<close>.
\<close>

theorem normalize_heading_misses_negative:
  "normalize_heading (- 200) = - 200 \<and> \<not> (- 180 < normalize_heading (- 200))"
  by (simp add: normalize_heading_def)

text \<open>
  \<^bold>\<open>C8\<close>. There are six missions. LEFT at index 0 selects 5, RIGHT at index 5 selects
  0; from every index in range, RIGHT and then LEFT gives the index back, and so do \<open>n\<close>
  times RIGHT followed by \<open>n\<close> times LEFT. A pass of \<open>main\<close> that sees only RIGHT pressed
  goes on with the next index, one that sees only LEFT with the previous one.
\<close>

theorem selection_wraps_around:
  "select_previous env 0 = 5
   \<and> select_next env 5 = 0
   \<and> (0 \<le> i \<and> i < 6 \<longrightarrow>
        select_previous env (select_next env i) = i
        \<and> (select_previous env ^^ n) ((select_next env ^^ n) i) = i)
   \<and> (0 \<le> i \<and> i < 6 \<and> main_pass env i w = Some (p, w')
        \<and> CENTER \<notin> pressed env (length (trace w))
        \<and> pressed env (Suc (length (trace w))) = {RIGHT} \<longrightarrow> p = Continue (select_next env i))
   \<and> (0 \<le> i \<and> i < 6 \<and> main_pass env i w = Some (p, w')
        \<and> CENTER \<notin> pressed env (length (trace w))
        \<and> pressed env (Suc (length (trace w))) = {LEFT} \<longrightarrow> p = Continue (select_previous env i))"
proof (intro conjI impI)
  show "select_previous env 0 = 5" by (simp add: select_previous_def length_MISSIONS)
  show "select_next env 5 = 0" by (simp add: select_next_def length_MISSIONS)
next
  assume "0 \<le> i \<and> i < 6"
  then show "select_previous env (select_next env i) = i"
    "(select_previous env ^^ n) ((select_next env ^^ n) i) = i"
    by (simp_all add: select_previous_next select_previous_next_funpow)
next
  assume a: "0 \<le> i \<and> i < 6 \<and> main_pass env i w = Some (p, w')
        \<and> CENTER \<notin> pressed env (length (trace w))
        \<and> pressed env (Suc (length (trace w))) = {RIGHT}"
  then have "BLUETOOTH \<notin> pressed env (Suc (length (trace w)))" by simp
  from main_pass_selecting [OF _ _ this, of i p w'] a show "p = Continue (select_next env i)"
    by simp
next
  assume a: "0 \<le> i \<and> i < 6 \<and> main_pass env i w = Some (p, w')
        \<and> CENTER \<notin> pressed env (length (trace w))
        \<and> pressed env (Suc (length (trace w))) = {LEFT}"
  then have "BLUETOOTH \<notin> pressed env (Suc (length (trace w)))" by simp
  from main_pass_selecting [OF _ _ this, of i p w'] a show "p = Continue (select_previous env i)"
    by simp
qed

theorem selection_wraps_around_witness:
  "(0 :: int) \<le> 5 \<and> (5 :: int) < 6
   \<and> select_previous right_tap (select_next right_tap 5) = 5
   \<and> (select_previous right_tap ^^ 7) ((select_next right_tap ^^ 7) 5) = 5
   \<and> main_pass right_tap 5 power_on =
        Some (Continue 0,
              power_on\<lparr>trace := [buttons_pressed {}, buttons_pressed {RIGHT},
                                  print ''Selected: Mission 0'', light_on RED,
                                  buttons_pressed {}, wait 50]\<rparr>)
   \<and> CENTER \<notin> pressed right_tap (length (trace power_on))
   \<and> pressed right_tap (Suc (length (trace power_on))) = {RIGHT}
   \<and> select_next right_tap 5 = 0
   \<and> (0 :: int) \<le> 0
   \<and> main_pass left_tap 0 power_on =
        Some (Continue 5,
              power_on\<lparr>trace := [buttons_pressed {}, buttons_pressed {LEFT},
                                  print ''Selected: Mission 5'', light_on BLACK,
                                  buttons_pressed {}, wait 50]\<rparr>)
   \<and> CENTER \<notin> pressed left_tap (length (trace power_on))
   \<and> pressed left_tap (Suc (length (trace power_on))) = {LEFT}
   \<and> select_previous left_tap 0 = 5"
proof -
  have r: "main_pass right_tap 5 power_on =
        Some (Continue 0,
              power_on\<lparr>trace := [buttons_pressed {}, buttons_pressed {RIGHT},
                                  print ''Selected: Mission 0'', light_on RED,
                                  buttons_pressed {}, wait 50]\<rparr>)"
    by (simp add: selector_defs run_defs wait_while_pressed.simps right_tap_def power_on_def)
  have l: "main_pass left_tap 0 power_on =
        Some (Continue 5,
              power_on\<lparr>trace := [buttons_pressed {}, buttons_pressed {LEFT},
                                  print ''Selected: Mission 5'', light_on BLACK,
                                  buttons_pressed {}, wait 50]\<rparr>)"
    by (simp add: selector_defs run_defs wait_while_pressed.simps left_tap_def power_on_def)
  have pr: "CENTER \<notin> pressed right_tap (length (trace power_on))"
    "pressed right_tap (Suc (length (trace power_on))) = {RIGHT}"
    "CENTER \<notin> pressed left_tap (length (trace power_on))"
    "pressed left_tap (Suc (length (trace power_on))) = {LEFT}"
    by (simp_all add: right_tap_def left_tap_def power_on_def)
  note t = selection_wraps_around [of right_tap 5 7]
  from t have a: "select_previous right_tap (select_next right_tap 5) = 5"
    "(select_previous right_tap ^^ 7) ((select_next right_tap ^^ 7) 5) = 5"
    "select_next right_tap 5 = 0" by simp_all
  from selection_wraps_around [of left_tap] have b: "select_previous left_tap 0 = 5" by simp
  show ?thesis using r l pr a b by simp
qed

text \<open>
  \<^bold>\<open>C9\<close>. \<open>drive_cm(distance_cm, velocity_cm_s, acceleration_cm_s2)\<close> stores the speed and
  the acceleration times ten in the drive base, makes one \<open>robot.straight\<close> call with the
  distance times ten, and stops the drive base. Whatever one of the three calls raises
  leaves \<open>drive_cm\<close> as it is, at once: nothing is called after it, and \<open>straight\<close> is
  never called a second time. The equation gives the result of \<open>drive_cm\<close> in every
  environment: the three \<open>fault\<close> lookups are the three calls.
\<close>

theorem drive_cm_one_straight_call:
  "drive_cm env d v a w =
     (case fault env (length (trace w)) of
        Some x \<Rightarrow>
          Some (Raised x, w\<lparr>trace := trace w @ [robot_settings (v * 10) (a * 10), raised x]\<rparr>)
      | None \<Rightarrow>
          (case fault env (length (trace w) + 1) of
             Some x \<Rightarrow>
               Some (Raised x,
                     w\<lparr>trace := trace w @ [robot_settings (v * 10) (a * 10), robot_straight (d * 10), raised x],
                       straight_speed := v * 10, straight_acceleration := a * 10\<rparr>)
           | None \<Rightarrow>
               (case fault env (length (trace w) + 2) of
                  Some x \<Rightarrow>
                    Some (Raised x,
                          w\<lparr>trace := trace w @ [robot_settings (v * 10) (a * 10), robot_straight (d * 10),
                                                robot_stop, raised x],
                            straight_speed := v * 10, straight_acceleration := a * 10\<rparr>)
                | None \<Rightarrow>
                    Some (Done,
                          w\<lparr>trace := trace w @ [robot_settings (v * 10) (a * 10), robot_straight (d * 10),
                                                robot_stop],
                            straight_speed := v * 10, straight_acceleration := a * 10\<rparr>))))"
  by (simp add: drive_cm_def actuate_def emit_def split: option.splits)

text \<open>
  \<^bold>\<open>C10\<close>. When \<open>drive_cm(d, v, a)\<close> has returned, the drive base holds
  \<open>straight_speed = v * 10\<close> and \<open>straight_acceleration = a * 10\<close>; \<open>setup_drive\<close> sets
  both to 300. \<open>gyro_turn\<close>, \<open>run_motor_for_degrees\<close> and every call that is a print, a
  beep, a wait or a reset of the heading leave both settings as they are, however they end.
  Each of the six missions is a block that calls \<open>setup_drive\<close> before anything but a
  print.
\<close>

theorem settings_persist:
  "(drive_cm env d v a w = Some (Done, w') \<longrightarrow>
      straight_speed w' = v * 10 \<and> straight_acceleration w' = a * 10)
   \<and> (setup_drive env w = Some (Done, w') \<longrightarrow>
      straight_speed w' = 300 \<and> straight_acceleration w' = 300)
   \<and> (gyro_turn env t slow axis w = Some (r, w') \<longrightarrow>
      straight_speed w' = straight_speed w \<and> straight_acceleration w' = straight_acceleration w)
   \<and> (run_motor_for_degrees env m degrees speed w = Some (r, w') \<longrightarrow>
      straight_speed w' = straight_speed w \<and> straight_acceleration w' = straight_acceleration w)
   \<and> (call e w = Some (r, w') \<longrightarrow>
      straight_speed w' = straight_speed w \<and> straight_acceleration w' = straight_acceleration w)
   \<and> (\<forall>(name, fn) \<in> set (MISSIONS env).
        \<exists>prints rest. fn = block (map (\<lambda>s. call (print s)) prints @ setup_drive env # rest))"
proof (intro conjI)
  show "drive_cm env d v a w = Some (Done, w') \<longrightarrow>
      straight_speed w' = v * 10 \<and> straight_acceleration w' = a * 10"
    by (auto simp: drive_cm_def actuate_def split: option.splits)
  show "setup_drive env w = Some (Done, w') \<longrightarrow>
      straight_speed w' = 300 \<and> straight_acceleration w' = 300"
    by (auto simp: setup_drive_def beep_ok_def call_def actuate_def split: option.splits)
  show "gyro_turn env t slow axis w = Some (r, w') \<longrightarrow>
      straight_speed w' = straight_speed w \<and> straight_acceleration w' = straight_acceleration w"
    using keeps_settings_gyro_turn [of env t slow axis]
    by (auto simp: ensures_def keeps_settings_def)
  show "run_motor_for_degrees env m degrees speed w = Some (r, w') \<longrightarrow>
      straight_speed w' = straight_speed w \<and> straight_acceleration w' = straight_acceleration w"
    by (auto simp: run_motor_for_degrees_def actuate_def split: option.splits)
  show "call e w = Some (r, w') \<longrightarrow>
      straight_speed w' = straight_speed w \<and> straight_acceleration w' = straight_acceleration w"
    by (auto simp: call_def)
  have m5: "\<exists>prints rest. mission_5 env = block (map (\<lambda>s. call (print s)) prints @ setup_drive env # rest)"
    unfolding mission_5_def by (rule exI [of _ "[''Mission 5#'']"], simp del: block.simps, rule exI, rule refl)
  have m: "\<exists>prints rest. block (setup_drive env # rest0) = block (map (\<lambda>s. call (print s)) prints @ setup_drive env # rest)" for rest0
    by (rule exI [of _ "[]"], rule exI [of _ rest0], simp del: block.simps)
  show "\<forall>(name, fn) \<in> set (MISSIONS env).
        \<exists>prints rest. fn = block (map (\<lambda>s. call (print s)) prints @ setup_drive env # rest)"
    unfolding MISSIONS_def
    apply (simp del: block.simps)
    apply (intro conjI m5)
    unfolding mission_0_def mission_1_def mission_2_def mission_3_def mission_4_def
    by (simp_all del: block.simps add: m)
qed

theorem settings_persist_witness:
  "drive_cm turned 15 30 50 power_on
     = Some (Done, \<lparr>trace = [robot_settings 300 500, robot_straight 150, robot_stop],
                    straight_speed = 300, straight_acceleration = 500\<rparr>)
   \<and> gyro_turn turned 10 True True
        \<lparr>trace = [robot_settings 300 500, robot_straight 150, robot_stop],
         straight_speed = 300, straight_acceleration = 500\<rparr>
     = Some (Done, \<lparr>trace = [robot_settings 300 500, robot_straight 150, robot_stop,
                             imu_reset_heading 0, wait 150, buttons_pressed {}, imu_heading 90,
                             motor_stop left_motor, motor_stop right_motor, wait 100],
                    straight_speed = 300, straight_acceleration = 500\<rparr>)
   \<and> run_motor_for_degrees turned motor_c 200 1000
        \<lparr>trace = [robot_settings 300 500, robot_straight 150, robot_stop],
         straight_speed = 300, straight_acceleration = 500\<rparr>
     = Some (Done, \<lparr>trace = [robot_settings 300 500, robot_straight 150, robot_stop,
                             motor_run_angle motor_c 1000 200],
                    straight_speed = 300, straight_acceleration = 500\<rparr>)
   \<and> call (wait 500)
        \<lparr>trace = [robot_settings 300 500, robot_straight 150, robot_stop],
         straight_speed = 300, straight_acceleration = 500\<rparr>
     = Some (Done, \<lparr>trace = [robot_settings 300 500, robot_straight 150, robot_stop, wait 500],
                    straight_speed = 300, straight_acceleration = 500\<rparr>)
   \<and> setup_drive turned
        \<lparr>trace = [robot_settings 300 500, robot_straight 150, robot_stop],
         straight_speed = 300, straight_acceleration = 500\<rparr>
     = Some (Done, \<lparr>trace = [robot_settings 300 500, robot_straight 150, robot_stop,
                             robot_stop, robot_settings 300 300, speaker_beep 900 80],
                    straight_speed = 300, straight_acceleration = 300\<rparr>)
   \<and> (''Mission 5'', mission_5 turned) \<in> set (MISSIONS turned)
   \<and> (\<exists>prints rest.
         mission_5 turned = block (map (\<lambda>s. call (print s)) prints @ setup_drive turned # rest))"
proof -
  let ?w1 = "\<lparr>trace = [robot_settings 300 500, robot_straight 150, robot_stop],
              straight_speed = 300, straight_acceleration = 500\<rparr>"
  have d: "drive_cm turned 15 30 50 power_on = Some (Done, ?w1)"
    by (simp add: drive_cm_def run_defs turned_def power_on_def)
  have g: "gyro_turn turned 10 True True ?w1
     = Some (Done, \<lparr>trace = [robot_settings 300 500, robot_straight 150, robot_stop,
                             imu_reset_heading 0, wait 150, buttons_pressed {}, imu_heading 90,
                             motor_stop left_motor, motor_stop right_motor, wait 100],
                    straight_speed = 300, straight_acceleration = 500\<rparr>)"
    by (simp add: run_defs gyro_turn_loop.simps turned_def)
  have m: "run_motor_for_degrees turned motor_c 200 1000 ?w1
     = Some (Done, \<lparr>trace = [robot_settings 300 500, robot_straight 150, robot_stop,
                             motor_run_angle motor_c 1000 200],
                    straight_speed = 300, straight_acceleration = 500\<rparr>)"
    by (simp add: run_motor_for_degrees_def run_defs turned_def)
  have c: "call (wait 500) ?w1
     = Some (Done, \<lparr>trace = [robot_settings 300 500, robot_straight 150, robot_stop, wait 500],
                    straight_speed = 300, straight_acceleration = 500\<rparr>)"
    by (simp add: run_defs)
  have s: "setup_drive turned ?w1
     = Some (Done, \<lparr>trace = [robot_settings 300 500, robot_straight 150, robot_stop,
                             robot_stop, robot_settings 300 300, speaker_beep 900 80],
                    straight_speed = 300, straight_acceleration = 300\<rparr>)"
    by (simp add: setup_drive_def beep_ok_def run_defs turned_def)
  have in5: "(''Mission 5'', mission_5 turned) \<in> set (MISSIONS turned)"
    by (simp add: MISSIONS_def)
  from settings_persist [of turned 15 30 50 power_on ?w1] in5
  have ex: "\<exists>prints rest.
         mission_5 turned = block (map (\<lambda>s. call (print s)) prints @ setup_drive turned # rest)"
    by blast
  show ?thesis
    by (intro conjI d g m c s in5 ex)
qed

end
